theory Spec2Isabelle
  imports Complex_Main "HOL-Library.AList"
begin

chapter \<open>Lexical search of sweepai: tokenizer, inverted index, BM25 ranking\<close>

text \<open>
  A shallow embedding of \<^verbatim>\<open>src/sweepai/core/lexical_search.py\<close>.

  \<^item> A Python \<^verbatim>\<open>str\<close> is a \<^typ>\<open>string\<close>. The character classes of the two regular
    expressions are the ASCII ones; a character outside ASCII is not a word character here.
  \<^item> A Python \<^verbatim>\<open>float\<close> is a \<^typ>\<open>real\<close>: arithmetic is exact, there is no rounding, so
    nothing here speaks of what rounding does to a score (two scores that differ over the
    reals may be equal as doubles). Python raises \<^verbatim>\<open>ZeroDivisionError\<close> on a float division
    by zero and \<^verbatim>\<open>ValueError\<close> on the logarithm of a non-positive number; both are branches
    of the model.
  \<^item> A \<^verbatim>\<open>dict\<close> is an association list with distinct keys in insertion order:
    \<^const>\<open>map_of\<close> reads it and \<^const>\<open>AList.update\<close> writes it (a key that is present keeps
    its place, a new key goes to the end), which is the order Python iterates in.
  \<^item> An exception is a value of \<open>py_exn\<close>, and a function that may raise returns
    \<open>py_exn + 'a\<close>.
\<close>

section \<open>Characters and strings\<close>

definition ord :: "char \<Rightarrow> nat" where
  "ord c = of_char c"

definition is_upper :: "char \<Rightarrow> bool" where
  "is_upper c = (65 \<le> ord c \<and> ord c \<le> 90)"

definition is_lower :: "char \<Rightarrow> bool" where
  "is_lower c = (97 \<le> ord c \<and> ord c \<le> 122)"

definition is_digit :: "char \<Rightarrow> bool" where
  "is_digit c = (48 \<le> ord c \<and> ord c \<le> 57)"

text \<open>The class \<^verbatim>\<open>\w\<close>: letters, digits and the underscore.\<close>

definition is_word_char :: "char \<Rightarrow> bool" where
  "is_word_char c = (is_upper c \<or> is_lower c \<or> is_digit c \<or> c = CHR ''_'')"

definition lower_char :: "char \<Rightarrow> char" where
  "lower_char c = (if is_upper c then char_of (ord c + 32) else c)"

text \<open>\<^verbatim>\<open>s.lower()\<close>\<close>

definition lower :: "string \<Rightarrow> string" where
  "lower s = map lower_char s"

text \<open>\<^verbatim>\<open>s.split(sep)\<close> for a one-character separator: empty parts are kept.\<close>

fun split :: "char \<Rightarrow> string \<Rightarrow> string list" where
  "split sep [] = [[]]"
| "split sep (c # cs) =
     (if c = sep then [] # split sep cs
      else (case split sep cs of [] \<Rightarrow> [[c]] | p # ps \<Rightarrow> (c # p) # ps))"

text \<open>\<^verbatim>\<open>s[i:j]\<close> for \<open>0 \<le> i\<close> and \<open>0 \<le> j\<close>.\<close>

definition substring :: "string \<Rightarrow> nat \<Rightarrow> nat \<Rightarrow> string" where
  "substring s i j = take (j - i) (drop i s)"

section \<open>The two regular expressions\<close>

text \<open>
  \<^verbatim>\<open>re.finditer(r"\b\w+\b", code)\<close>: the maximal runs of word characters, left to right,
  each with the offset it starts at (\<^verbatim>\<open>m.group()\<close>, \<^verbatim>\<open>m.start()\<close>). The first argument is the
  offset of the text still to scan.
\<close>

function finditer_words :: "nat \<Rightarrow> string \<Rightarrow> (string \<times> nat) list" where
  "finditer_words i [] = []"
| "finditer_words i (c # cs) =
     (if is_word_char c
      then (takeWhile is_word_char (c # cs), i)
             # finditer_words (i + length (takeWhile is_word_char (c # cs)))
                 (dropWhile is_word_char (c # cs))
      else finditer_words (Suc i) cs)"
  by pat_completeness auto
termination
  by (relation "measure (\<lambda>(i, s). length s)")
     (auto simp: le_imp_less_Suc length_dropWhile_le)

text \<open>
  \<^verbatim>\<open>variable_pattern.findall(text)\<close> for
  \<^verbatim>\<open>([A-Z][a-z]+|[a-z]+|[A-Z]+(?=[A-Z]|$))\<close>. At each position the alternatives are tried in
  order: a capital followed by at least one small letter and then all the small letters that
  follow; a maximal run of small letters; a run of capitals that is followed by a capital or by
  the end of the text, which is the whole maximal run when it ends the text and the run without
  its last capital when it has at least two. Where no alternative matches, the scan moves on by
  one character.
\<close>

function variable_findall :: "string \<Rightarrow> string list" where
  "variable_findall [] = []"
| "variable_findall (c # cs) =
     (if is_upper c \<and> cs \<noteq> [] \<and> is_lower (hd cs)
      then (c # takeWhile is_lower cs) # variable_findall (dropWhile is_lower cs)
      else if is_lower c
      then takeWhile is_lower (c # cs) # variable_findall (dropWhile is_lower (c # cs))
      else if is_upper c
      then (if dropWhile is_upper (c # cs) = []
            then [takeWhile is_upper (c # cs)]
            else if 2 \<le> length (takeWhile is_upper (c # cs))
            then butlast (takeWhile is_upper (c # cs))
                   # variable_findall
                       (last (takeWhile is_upper (c # cs)) # dropWhile is_upper (c # cs))
            else variable_findall cs)
      else variable_findall cs)"
  by pat_completeness auto
termination
proof (relation "measure length", goal_cases)
  case 1
  show ?case by simp
next
  case (2 c cs)
  show ?case by (simp add: le_imp_less_Suc length_dropWhile_le)
next
  case (3 c cs)
  then show ?case by (simp add: le_imp_less_Suc length_dropWhile_le)
next
  case (4 c cs)
  have "length (takeWhile is_upper (c # cs)) + length (dropWhile is_upper (c # cs))
          = length (c # cs)"
    by (metis length_append takeWhile_dropWhile_id)
  with 4 show ?case by simp
next
  case (5 c cs)
  show ?case by simp
next
  case (6 c cs)
  show ?case by simp
qed

section \<open>Tokens\<close>

text \<open>The fields the code sets on a whoosh \<^verbatim>\<open>Token\<close>.\<close>

record Token =
  tok_text :: string
  pos :: nat
  startchar :: nat
  end_pos :: nat
  endchar :: nat

text \<open>\<^verbatim>\<open>check_valid_token\<close>: a non-empty part of more than one character.\<close>

definition check_valid_token :: "string \<Rightarrow> bool" where
  "check_valid_token token = (token \<noteq> [] \<and> 1 < length token)"

text \<open>
  The inner loop of the snake-case branch. The state is the running \<open>offset\<close> and \<open>pos\<close>; the
  result is the tokens appended to \<^verbatim>\<open>valid_tokens\<close> and the \<open>pos\<close> after the loop.
\<close>

fun snake_parts :: "nat \<Rightarrow> nat \<Rightarrow> nat \<Rightarrow> string list \<Rightarrow> Token list \<times> nat" where
  "snake_parts span_start offset p [] = ([], p)"
| "snake_parts span_start offset p (part # parts) =
     (if check_valid_token part
      then (let (ts, p') = snake_parts span_start (offset + (length part + 1)) (p + 1) parts
            in (\<lparr>tok_text = lower part, pos = p, startchar = span_start + offset,
                 end_pos = p + 1, endchar = span_start + length part + offset\<rparr> # ts, p'))
      else snake_parts span_start (offset + (length part + 1)) p parts)"

text \<open>The inner loop of the camel-case branch: the offset grows by the length of the part.\<close>

fun camel_parts :: "nat \<Rightarrow> nat \<Rightarrow> nat \<Rightarrow> string list \<Rightarrow> Token list \<times> nat" where
  "camel_parts span_start offset p [] = ([], p)"
| "camel_parts span_start offset p (part # parts) =
     (if check_valid_token part
      then (let (ts, p') = camel_parts span_start (offset + length part) (p + 1) parts
            in (\<lparr>tok_text = lower part, pos = p, startchar = span_start + offset,
                 end_pos = p + 1, endchar = span_start + length part + offset\<rparr> # ts, p'))
      else camel_parts span_start (offset + length part) p parts)"

text \<open>One iteration of the outer loop, for the match \<open>(text, span_start)\<close>.\<close>

definition tokenize_match :: "nat \<Rightarrow> string \<times> nat \<Rightarrow> Token list \<times> nat" where
  "tokenize_match p m =
     (let txt = fst m; span_start = snd m in
      if CHR ''_'' \<in> set txt
      then snake_parts span_start 0 p (split CHR ''_'' txt)
      else if variable_findall txt \<noteq> []
      then camel_parts span_start 0 p (variable_findall txt)
      else if check_valid_token txt
      then ([\<lparr>tok_text = lower txt, pos = p, startchar = span_start,
              end_pos = p + 1, endchar = span_start + length txt\<rparr>], p + 1)
      else ([], p))"

fun tokenize_matches :: "nat \<Rightarrow> (string \<times> nat) list \<Rightarrow> Token list" where
  "tokenize_matches p [] = []"
| "tokenize_matches p (m # ms) =
     (let (ts, p') = tokenize_match p m in ts @ tokenize_matches p' ms)"

definition tokenize_call :: "string \<Rightarrow> Token list" where
  "tokenize_call code = tokenize_matches 0 (finditer_words 0 code)"

section \<open>Bigrams and trigrams\<close>

text \<open>
  The token \<^verbatim>\<open>construct_bigrams\<close> builds from \<open>prev_token\<close> and \<open>token\<close>, and the one
  \<^verbatim>\<open>construct_trigrams\<close> builds from \<open>prev_prev_token\<close>, \<open>prev_token\<close> and \<open>token\<close>.
\<close>

definition joined_token2 :: "Token \<Rightarrow> Token \<Rightarrow> Token" where
  "joined_token2 prev_token token =
     \<lparr>tok_text = tok_text prev_token @ ''_'' @ tok_text token,
      pos = pos prev_token,
      startchar = startchar prev_token,
      end_pos = end_pos token,
      endchar = endchar token\<rparr>"

definition joined_token3 :: "Token \<Rightarrow> Token \<Rightarrow> Token \<Rightarrow> Token" where
  "joined_token3 prev_prev_token prev_token token =
     \<lparr>tok_text = tok_text prev_prev_token @ ''_'' @ tok_text prev_token @ ''_'' @ tok_text token,
      pos = pos prev_prev_token,
      startchar = startchar prev_prev_token,
      end_pos = end_pos token,
      endchar = endchar token\<rparr>"

text \<open>
  The loops, with \<open>prev_token\<close> (and \<open>prev_prev_token\<close>) as state: \<^verbatim>\<open>None\<close> at the start,
  and a \<^verbatim>\<open>Token\<close> object is always true in a condition. The result is what the loop appends
  to \<open>res\<close>.
\<close>

fun bigrams_loop :: "Token option \<Rightarrow> Token list \<Rightarrow> Token list" where
  "bigrams_loop prev_token [] = []"
| "bigrams_loop prev_token (token # tokens) =
     (case prev_token of
        None \<Rightarrow> bigrams_loop (Some token) tokens
      | Some pt \<Rightarrow> joined_token2 pt token # bigrams_loop (Some token) tokens)"

definition construct_bigrams :: "Token list \<Rightarrow> Token list" where
  "construct_bigrams tokens = bigrams_loop None tokens"

fun trigrams_loop :: "Token option \<Rightarrow> Token option \<Rightarrow> Token list \<Rightarrow> Token list" where
  "trigrams_loop prev_prev_token prev_token [] = []"
| "trigrams_loop prev_prev_token prev_token (token # tokens) =
     (case (prev_token, prev_prev_token) of
        (Some pt, Some ppt) \<Rightarrow>
          joined_token3 ppt pt token # trigrams_loop prev_token (Some token) tokens
      | _ \<Rightarrow> trigrams_loop prev_token (Some token) tokens)"

definition construct_trigrams :: "Token list \<Rightarrow> Token list" where
  "construct_trigrams tokens = trigrams_loop None None tokens"

text \<open>\<^verbatim>\<open>CodeTokenizer.__call__\<close>: the tokens, then the bigrams, then the trigrams.\<close>

definition CodeTokenizer :: "string \<Rightarrow> Token list" where
  "CodeTokenizer v =
     (let tokens = tokenize_call v;
          bigrams = construct_bigrams tokens;
          trigrams = construct_trigrams tokens
      in tokens @ bigrams @ trigrams)"

text \<open>\<^verbatim>\<open>compute_document_tokens\<close>, without the file cache around it.\<close>

definition compute_document_tokens :: "string \<Rightarrow> string list" where
  "compute_document_tokens content = map tok_text (CodeTokenizer content)"

section \<open>Exceptions\<close>

text \<open>
  The exceptions the code raises or names, and two of the built-in ones that are not
  instances of \<^verbatim>\<open>Exception\<close> (\<^verbatim>\<open>SystemExit\<close> is the third).
\<close>

datatype py_exn =
    SystemExit
  | KeyboardInterrupt
  | GeneratorExit
  | KeyError
  | ValueError
  | ZeroDivisionError
  | FileNotFoundError
  | OtherException string

text \<open>\<^verbatim>\<open>isinstance(e, Exception)\<close>\<close>

fun is_Exception :: "py_exn \<Rightarrow> bool" where
  "is_Exception SystemExit = False"
| "is_Exception KeyboardInterrupt = False"
| "is_Exception GeneratorExit = False"
| "is_Exception _ = True"

section \<open>The inverted index\<close>

type_synonym py_dict = "(string \<times> string) list"

text \<open>
  The attributes of a \<^verbatim>\<open>CustomIndex\<close>. The attribute \<^verbatim>\<open>tokenizer\<close> is always a
  \<^verbatim>\<open>CodeTokenizer()\<close>, which has no state: it is the function \<^const>\<open>CodeTokenizer\<close>.
  A document length is a \<^verbatim>\<open>len\<close> and a term frequency is a count of a \<^verbatim>\<open>Counter\<close>: both are
  natural numbers.
\<close>

record CustomIndex =
  inverted_index :: "(string \<times> (string \<times> nat) list) list"
  doc_lengths :: "(string \<times> nat) list"
  avg_doc_length :: real
  k1 :: real
  b :: real
  metadata :: "(string \<times> py_dict) list"

text \<open>\<^verbatim>\<open>CustomIndex()\<close>\<close>

definition CustomIndex_init :: CustomIndex where
  "CustomIndex_init =
     \<lparr>inverted_index = [], doc_lengths = [], avg_doc_length = 0,
      k1 = 12 / 10, b = 75 / 100, metadata = []\<rparr>"

text \<open>
  Reading the \<^verbatim>\<open>defaultdict(list)\<close>: \<^verbatim>\<open>inverted_index[term]\<close> and
  \<^verbatim>\<open>inverted_index.get(term, [])\<close> both give the empty list for a term that is not a key.
  (The first also stores the empty list under the term, which no later read can tell from a
  missing key.)
\<close>

definition postings :: "(string \<times> (string \<times> nat) list) list \<Rightarrow> string \<Rightarrow> (string \<times> nat) list" where
  "postings idx term = (case map_of idx term of None \<Rightarrow> [] | Some l \<Rightarrow> l)"

text \<open>\<^verbatim>\<open>Counter(tokens)\<close>: every distinct token with its count, in the order of first occurrence.\<close>

definition Counter :: "string list \<Rightarrow> (string \<times> nat) list" where
  "Counter tokens =
     fold (\<lambda>t c. AList.update t (case map_of c t of None \<Rightarrow> 1 | Some n \<Rightarrow> n + 1) c) tokens []"

text \<open>The loop of \<^verbatim>\<open>index_document\<close> over \<^verbatim>\<open>token_freq.items()\<close>.\<close>

definition append_postings ::
  "string \<Rightarrow> (string \<times> nat) list \<Rightarrow> (string \<times> (string \<times> nat) list) list
     \<Rightarrow> (string \<times> (string \<times> nat) list) list" where
  "append_postings doc_id token_freq idx =
     fold (\<lambda>(token, freq) idx'. AList.update token (postings idx' token @ [(doc_id, freq)]) idx')
       token_freq idx"

text \<open>
  \<^verbatim>\<open>index_document\<close>. The division cannot fail: \<open>doc_id\<close> has just been stored, so
  \<^verbatim>\<open>len(self.doc_lengths)\<close> is at least 1.
\<close>

definition index_document :: "CustomIndex \<Rightarrow> string \<Rightarrow> string list \<Rightarrow> CustomIndex" where
  "index_document self doc_id tokens =
     (let doc_length = length tokens;
          dl = AList.update doc_id doc_length (doc_lengths self);
          avg = real (sum_list (map snd dl)) / real (length dl);
          token_freq = Counter tokens
      in self\<lparr>doc_lengths := dl, avg_doc_length := avg,
               inverted_index := append_postings doc_id token_freq (inverted_index self)\<rparr>)"

definition add_document :: "CustomIndex \<Rightarrow> string \<Rightarrow> string list \<Rightarrow> py_dict \<Rightarrow> CustomIndex" where
  "add_document self title tokens md =
     (let doc_id = title
      in index_document (self\<lparr>metadata := AList.update doc_id md (metadata self)\<rparr>) doc_id tokens)"

text \<open>
  An index populated only through \<^verbatim>\<open>add_document\<close>: the calls
  \<open>(title, tokens, metadata)\<close>, in order, on an index.
\<close>

definition add_document_calls ::
  "CustomIndex \<Rightarrow> (string \<times> string list \<times> py_dict) list \<Rightarrow> CustomIndex" where
  "add_document_calls index calls =
     fold (\<lambda>(doc_title, tokens, md) i. add_document i doc_title tokens md) calls index"

section \<open>BM25\<close>

text \<open>
  \<^verbatim>\<open>bm25\<close>, in the order Python evaluates it: the logarithm (\<^verbatim>\<open>ValueError\<close> on a
  non-positive argument), the lookup of the document's length (\<^verbatim>\<open>KeyError\<close>), the division
  by the average length and the division by the denominator of \<open>tf\<close> (\<^verbatim>\<open>ZeroDivisionError\<close>).
  \<^verbatim>\<open>num_docs - len(...)\<close> is a subtraction of integers.
\<close>

definition idf_arg :: "CustomIndex \<Rightarrow> string \<Rightarrow> real" where
  "idf_arg self term =
     (let num_docs = int (length (doc_lengths self));
          df = int (length (postings (inverted_index self) term))
      in (real_of_int (num_docs - df) + 5 / 10) / (real_of_int df + 5 / 10) + 1)"

definition tf_denominator :: "CustomIndex \<Rightarrow> nat \<Rightarrow> nat \<Rightarrow> real" where
  "tf_denominator self doc_length term_freq =
     real term_freq + k1 self * (1 - b self + b self * (real doc_length / avg_doc_length self))"

definition bm25 :: "CustomIndex \<Rightarrow> string \<Rightarrow> string \<Rightarrow> nat \<Rightarrow> py_exn + real" where
  "bm25 self doc_id term term_freq =
     (if idf_arg self term \<le> 0 then Inl ValueError
      else let idf = ln (idf_arg self term) in
        (case map_of (doc_lengths self) doc_id of
           None \<Rightarrow> Inl KeyError
         | Some doc_length \<Rightarrow>
             if avg_doc_length self = 0 then Inl ZeroDivisionError
             else if tf_denominator self doc_length term_freq = 0 then Inl ZeroDivisionError
             else let tf = ((k1 self + 1) * real term_freq)
                             / tf_denominator self doc_length term_freq
                  in Inr (idf * tf)))"

section \<open>Searching the index\<close>

text \<open>Reading the \<^verbatim>\<open>defaultdict(float)\<close> of the scores.\<close>

definition score_of :: "(string \<times> real) list \<Rightarrow> string \<Rightarrow> real" where
  "score_of scores doc_id = (case map_of scores doc_id of None \<Rightarrow> 0 | Some v \<Rightarrow> v)"

text \<open>The inner loop of \<^verbatim>\<open>CustomIndex.search_index\<close>, over the posting list of one token.\<close>

fun score_postings ::
  "CustomIndex \<Rightarrow> string \<Rightarrow> (string \<times> real) list \<Rightarrow> (string \<times> nat) list
     \<Rightarrow> py_exn + (string \<times> real) list" where
  "score_postings self token scores [] = Inr scores"
| "score_postings self token scores ((doc_id, term_freq) # ps) =
     (case bm25 self doc_id token term_freq of
        Inl e \<Rightarrow> Inl e
      | Inr v \<Rightarrow>
          score_postings self token
            (AList.update doc_id (score_of scores doc_id + v) scores) ps)"

text \<open>The outer loop, over the tokens of the query.\<close>

fun score_tokens ::
  "CustomIndex \<Rightarrow> (string \<times> real) list \<Rightarrow> string list \<Rightarrow> py_exn + (string \<times> real) list" where
  "score_tokens self scores [] = Inr scores"
| "score_tokens self scores (token # tokens) =
     (case score_postings self token scores (postings (inverted_index self) token) of
        Inl e \<Rightarrow> Inl e
      | Inr scores' \<Rightarrow> score_tokens self scores' tokens)"

text \<open>
  \<^verbatim>\<open>sorted(scores.items(), key=lambda x: x[1], reverse=True)\<close>: a stable sort by the score,
  largest first; items of equal score keep the order they had.
\<close>

definition sorted_by_score_desc :: "(string \<times> real) list \<Rightarrow> (string \<times> real) list" where
  "sorted_by_score_desc items = sort_key (\<lambda>x. - snd x) items"

text \<open>\<^verbatim>\<open>self.metadata.get(doc_id, {})\<close>\<close>

definition metadata_get :: "CustomIndex \<Rightarrow> string \<Rightarrow> py_dict" where
  "metadata_get self doc_id = (case map_of (metadata self) doc_id of None \<Rightarrow> [] | Some md \<Rightarrow> md)"

text \<open>The method \<^verbatim>\<open>CustomIndex.search_index\<close>.\<close>

definition query_tokens :: "string \<Rightarrow> string list" where
  "query_tokens query = map tok_text (CodeTokenizer query)"

definition CustomIndex_search_index ::
  "CustomIndex \<Rightarrow> string \<Rightarrow> py_exn + (string \<times> real \<times> py_dict) list" where
  "CustomIndex_search_index self query =
     (case score_tokens self [] (query_tokens query) of
        Inl e \<Rightarrow> Inl e
      | Inr scores \<Rightarrow>
          Inr (map (\<lambda>(doc_id, score). (doc_id, score, metadata_get self doc_id))
                 (sorted_by_score_desc scores)))"

text \<open>
  For stating what the search computes: the pairs of a query token and a stored term
  frequency, one for every occurrence of a token in the query and every posting of \<open>doc_id\<close>
  in the posting list of that token, in the order the two loops visit them.
\<close>

definition query_matches :: "CustomIndex \<Rightarrow> string \<Rightarrow> string \<Rightarrow> (string \<times> nat) list" where
  "query_matches self query doc_id =
     concat (map (\<lambda>token. map (\<lambda>(d, term_freq). (token, term_freq))
                              (filter (\<lambda>(d, term_freq). d = doc_id)
                                 (postings (inverted_index self) token)))
               (query_tokens query))"

section \<open>The search function of the module\<close>

text \<open>
  The first loop of \<^verbatim>\<open>search_index\<close>: the first score seen for each \<open>doc_id\<close>, in the order of
  the results.
\<close>

definition first_scores :: "(string \<times> real \<times> py_dict) list \<Rightarrow> (string \<times> real) list" where
  "first_scores results_with_metadata =
     fold (\<lambda>(doc_id, score, _) res.
             if doc_id \<notin> fst ` set res then AList.update doc_id score res else res)
       results_with_metadata []"

text \<open>\<^verbatim>\<open>max(res.values())\<close> and \<^verbatim>\<open>min(res.values())\<close> of a dictionary that is not empty.\<close>

definition max_value :: "(string \<times> real) list \<Rightarrow> real" where
  "max_value res = Max (set (map snd res))"

definition min_value :: "(string \<times> real) list \<Rightarrow> real" where
  "min_value res = Min (set (map snd res))"

text \<open>
  The normalisation. The dictionary comprehension divides once for each item, so it raises
  \<^verbatim>\<open>ZeroDivisionError\<close> when there is an item and \<open>max_score - min_score\<close> is zero.
\<close>

definition normalize :: "(string \<times> real) list \<Rightarrow> py_exn + (string \<times> real) list" where
  "normalize res =
     (let (max_score, min_score) =
            (if length res = 0 then (1, 0)
             else (max_value res,
                   if min_value res < max_value res then min_value res else 0))
      in if res \<noteq> [] \<and> max_score - min_score = 0 then Inl ZeroDivisionError
         else Inr (map (\<lambda>(k, v). (k, (v - min_score) / (max_score - min_score))) res))"

text \<open>The body of the \<^verbatim>\<open>try\<close> statement.\<close>

definition search_body :: "string \<Rightarrow> CustomIndex \<Rightarrow> py_exn + (string \<times> real) list" where
  "search_body query index =
     (case CustomIndex_search_index index query of
        Inl e \<Rightarrow> Inl e
      | Inr results_with_metadata \<Rightarrow> normalize (first_scores results_with_metadata))"

text \<open>
  The handlers of the \<^verbatim>\<open>try\<close> statement, applied to the outcome of its body:
  \<^verbatim>\<open>except SystemExit: raise SystemExit\<close>, then \<^verbatim>\<open>except Exception: return {}\<close>. An exception
  that is neither goes on to the caller.
\<close>

definition search_handlers :: "py_exn + (string \<times> real) list \<Rightarrow> py_exn + (string \<times> real) list" where
  "search_handlers outcome =
     (case outcome of
        Inr res \<Rightarrow> Inr res
      | Inl e \<Rightarrow>
          if e = SystemExit then Inl SystemExit
          else if is_Exception e then Inr []
          else Inl e)"

text \<open>\<^verbatim>\<open>search_index(query, index)\<close>; \<^verbatim>\<open>None\<close> is the index that is absent.\<close>

definition search_index :: "string \<Rightarrow> CustomIndex option \<Rightarrow> py_exn + (string \<times> real) list" where
  "search_index query index =
     (case index of
        None \<Rightarrow> Inr []
      | Some i \<Rightarrow> search_handlers (search_body query i))"

section \<open>Building the index from snippets\<close>

text \<open>
  Modelled from the spec: the class \<^verbatim>\<open>Snippet\<close> of \<^verbatim>\<open>sweepai.core.entities\<close>, which is not
  among the sources. The chunker supplies \<open>file_path\<close>, the content and the first and last
  line; \<open>snippet_text\<close> is what \<^verbatim>\<open>get_snippet(add_ellipsis=False, add_lines=False)\<close> returns.
\<close>

record Snippet =
  file_path :: string
  snippet_text :: string
  snippet_start :: int
  snippet_end :: int

record Document =
  title :: string
  content :: string
  doc_start :: int
  doc_end :: int

text \<open>\<^verbatim>\<open>s[n:]\<close> for an integer \<open>n\<close>: a negative \<open>n\<close> counts from the end.\<close>

definition slice_from :: "string \<Rightarrow> int \<Rightarrow> string" where
  "slice_from s n = (if 0 \<le> n then drop (nat n) s else drop (length s - nat (- n)) s)"

definition snippets_to_docs :: "Snippet list \<Rightarrow> int \<Rightarrow> Document list" where
  "snippets_to_docs snippets len_repo_cache_dir =
     map (\<lambda>snippet. \<lparr>title = slice_from (file_path snippet) len_repo_cache_dir,
                      content = snippet_text snippet,
                      doc_start = snippet_start snippet,
                      doc_end = snippet_end snippet\<rparr>) snippets"

text \<open>\<^verbatim>\<open>str(n)\<close> for an integer, as the f-string of the title formats it.\<close>

function str_nat :: "nat \<Rightarrow> string" where
  "str_nat n = (if n < 10 then [char_of (48 + n)]
                else str_nat (n div 10) @ [char_of (48 + n mod 10)])"
  by pat_completeness auto
termination
  by (relation "measure id") auto

definition str_int :: "int \<Rightarrow> string" where
  "str_int i = (if i < 0 then ''-'' @ str_nat (nat (- i)) else str_nat (nat i))"

text \<open>\<^verbatim>\<open>f"{doc.title}:{doc.start}-{doc.end}"\<close>\<close>

definition doc_id_of :: "Document \<Rightarrow> string" where
  "doc_id_of doc = title doc @ '':'' @ str_int (doc_start doc) @ ''-'' @ str_int (doc_end doc)"

text \<open>
  The first loop of the \<^verbatim>\<open>try\<close> block. \<open>compute_tokens\<close> is \<^verbatim>\<open>compute_document_tokens\<close> as the
  builder calls it, through the file cache, which is not among the sources: the call returns a
  list of tokens or raises. The loop stops at the first call that raises.
\<close>

fun tokenize_docs ::
  "(string \<Rightarrow> py_exn + string list) \<Rightarrow> Document list \<Rightarrow> py_exn + string list list" where
  "tokenize_docs compute_tokens [] = Inr []"
| "tokenize_docs compute_tokens (doc # docs) =
     (case compute_tokens (content doc) of
        Inl e \<Rightarrow> Inl e
      | Inr document_tokens \<Rightarrow>
          (case tokenize_docs compute_tokens docs of
             Inl e \<Rightarrow> Inl e
           | Inr all_tokens \<Rightarrow> Inr (document_tokens # all_tokens)))"

text \<open>The second loop: \<^verbatim>\<open>add_document\<close> for each document, with the default metadata.\<close>

definition add_documents :: "CustomIndex \<Rightarrow> (string \<times> string list) list \<Rightarrow> CustomIndex" where
  "add_documents index docs =
     fold (\<lambda>(doc_title, document_tokens) i. add_document i doc_title document_tokens []) docs index"

text \<open>
  \<^verbatim>\<open>prepare_index_from_snippets\<close> with \<open>ticket_progress = None\<close>, its default; the progress
  object is used only after the test for an empty list. The handler
  \<^verbatim>\<open>except FileNotFoundError\<close> logs and goes on to \<^verbatim>\<open>return index\<close>.
\<close>

definition prepare_index_from_snippets ::
  "(string \<Rightarrow> py_exn + string list) \<Rightarrow> Snippet list \<Rightarrow> int \<Rightarrow> py_exn + CustomIndex option" where
  "prepare_index_from_snippets compute_tokens snippets len_repo_cache_dir =
     (let all_docs = snippets_to_docs snippets len_repo_cache_dir in
      if length all_docs = 0 then Inr None
      else (case tokenize_docs compute_tokens all_docs of
              Inl e \<Rightarrow> if e = FileNotFoundError then Inr (Some CustomIndex_init) else Inl e
            | Inr all_tokens \<Rightarrow>
                Inr (Some (add_documents CustomIndex_init
                             (zip (map doc_id_of all_docs) all_tokens)))))"

chapter \<open>Properties\<close>

section \<open>The tokenizer on examples\<close>

text \<open>
  C4: the texts of the tokens of \<^verbatim>\<open>myVariableName\<close> are \<^verbatim>\<open>my\<close>, \<^verbatim>\<open>variable\<close>, \<^verbatim>\<open>name\<close>; those
  of \<^verbatim>\<open>MY_CONST_VALUE\<close> are \<^verbatim>\<open>my\<close>, \<^verbatim>\<open>const\<close>, \<^verbatim>\<open>value\<close>; \<^verbatim>\<open>a\<close> gives no token, since a
  part of one character is dropped; those of \<^verbatim>\<open>x1_y2\<close> are \<^verbatim>\<open>x1\<close>, \<^verbatim>\<open>y2\<close>.
\<close>

theorem tokenize_call_examples:
  "map tok_text (tokenize_call ''myVariableName'') = [''my'', ''variable'', ''name'']
   \<and> map tok_text (tokenize_call ''MY_CONST_VALUE'') = [''my'', ''const'', ''value'']
   \<and> map tok_text (tokenize_call ''a'') = []
   \<and> map tok_text (tokenize_call ''x1_y2'') = [''x1'', ''y2'']"
  by code_simp

text \<open>
  C9 asks that every token's offsets delimit the part of the input the token was made from.
  On \<^verbatim>\<open>ab12cd\<close> the camel-case branch finds the parts \<^verbatim>\<open>ab\<close> and \<^verbatim>\<open>cd\<close> and adds up their
  lengths only: the token \<^verbatim>\<open>cd\<close> gets the offsets 2 and 4, where the input reads \<^verbatim>\<open>12\<close>.
\<close>

theorem tokenize_call_offsets_drift:
  "tokenize_call ''ab12cd'' =
     [\<lparr>tok_text = ''ab'', pos = 0, startchar = 0, end_pos = 1, endchar = 2\<rparr>,
      \<lparr>tok_text = ''cd'', pos = 1, startchar = 2, end_pos = 2, endchar = 4\<rparr>]
   \<and> lower (substring ''ab12cd'' 2 4) = ''12''"
  by code_simp

section \<open>Bigrams and trigrams are the adjacent pairs and triples\<close>

lemma bigrams_loop_Some:
  "bigrams_loop (Some p) ts = map (\<lambda>(x, y). joined_token2 x y) (zip (p # ts) ts)"
  by (induction ts arbitrary: p) simp_all

lemma construct_bigrams_zip:
  "construct_bigrams ts = map (\<lambda>(x, y). joined_token2 x y) (zip ts (tl ts))"
  by (cases ts) (simp_all add: construct_bigrams_def bigrams_loop_Some)

lemma trigrams_loop_Some:
  "trigrams_loop (Some q) (Some p) ts
     = map (\<lambda>(x, y, z). joined_token3 x y z) (zip (q # p # ts) (zip (p # ts) ts))"
  by (induction ts arbitrary: q p) simp_all

lemma construct_trigrams_zip:
  "construct_trigrams ts
     = map (\<lambda>(x, y, z). joined_token3 x y z) (zip ts (zip (tl ts) (tl (tl ts))))"
proof (cases ts)
  case Nil
  then show ?thesis by (simp add: construct_trigrams_def)
next
  case (Cons t1 ts1)
  then show ?thesis
    by (cases ts1) (simp_all add: construct_trigrams_def trigrams_loop_Some)
qed

text \<open>
  C5: \<^verbatim>\<open>construct_bigrams\<close> returns one token for each adjacent pair, in the order of the
  input: its text is the two texts joined by an underscore, \<open>pos\<close> and \<open>startchar\<close> are those
  of the first token and \<open>endchar\<close> (and \<open>end_pos\<close>) those of the second.
  \<^verbatim>\<open>construct_trigrams\<close> does the same for each adjacent triple. Fewer than 2 tokens give no
  bigram and fewer than 3 give no trigram.
\<close>

theorem construct_ngrams_adjacent:
  "length (construct_bigrams tokens) = length tokens - 1
   \<and> (\<forall>i. i + 1 < length tokens \<longrightarrow>
         construct_bigrams tokens ! i =
           \<lparr>tok_text = tok_text (tokens ! i) @ ''_'' @ tok_text (tokens ! (i + 1)),
            pos = pos (tokens ! i),
            startchar = startchar (tokens ! i),
            end_pos = end_pos (tokens ! (i + 1)),
            endchar = endchar (tokens ! (i + 1))\<rparr>)
   \<and> length (construct_trigrams tokens) = length tokens - 2
   \<and> (\<forall>i. i + 2 < length tokens \<longrightarrow>
         construct_trigrams tokens ! i =
           \<lparr>tok_text = tok_text (tokens ! i) @ ''_'' @ tok_text (tokens ! (i + 1))
                         @ ''_'' @ tok_text (tokens ! (i + 2)),
            pos = pos (tokens ! i),
            startchar = startchar (tokens ! i),
            end_pos = end_pos (tokens ! (i + 2)),
            endchar = endchar (tokens ! (i + 2))\<rparr>)
   \<and> (length tokens < 2 \<longrightarrow> construct_bigrams tokens = [])
   \<and> (length tokens < 3 \<longrightarrow> construct_trigrams tokens = [])"
proof (intro conjI allI impI)
  show "length (construct_bigrams tokens) = length tokens - 1"
    by (simp add: construct_bigrams_zip)
  show "length (construct_trigrams tokens) = length tokens - 2"
    by (simp add: construct_trigrams_zip)
  show "construct_bigrams tokens = []" if "length tokens < 2"
    using that by (cases tokens) (auto simp: construct_bigrams_zip)
  show "construct_trigrams tokens = []" if "length tokens < 3"
  proof -
    have "length (construct_trigrams tokens) = 0"
      using that by (simp add: construct_trigrams_zip)
    then show ?thesis by simp
  qed
next
  fix i assume "i + 1 < length tokens"
  then show "construct_bigrams tokens ! i =
           \<lparr>tok_text = tok_text (tokens ! i) @ ''_'' @ tok_text (tokens ! (i + 1)),
            pos = pos (tokens ! i),
            startchar = startchar (tokens ! i),
            end_pos = end_pos (tokens ! (i + 1)),
            endchar = endchar (tokens ! (i + 1))\<rparr>"
    by (simp add: construct_bigrams_zip joined_token2_def nth_tl)
next
  fix i assume "i + 2 < length tokens"
  then show "construct_trigrams tokens ! i =
           \<lparr>tok_text = tok_text (tokens ! i) @ ''_'' @ tok_text (tokens ! (i + 1))
                         @ ''_'' @ tok_text (tokens ! (i + 2)),
            pos = pos (tokens ! i),
            startchar = startchar (tokens ! i),
            end_pos = end_pos (tokens ! (i + 2)),
            endchar = endchar (tokens ! (i + 2))\<rparr>"
    by (simp add: construct_trigrams_zip joined_token3_def nth_tl)
qed

theorem construct_ngrams_adjacent_witness:
  "length (construct_bigrams (tokenize_call ''myVariableName'')) = 2
   \<and> construct_bigrams (tokenize_call ''myVariableName'') ! 0 =
       \<lparr>tok_text = ''my_variable'', pos = 0, startchar = 0, end_pos = 2, endchar = 10\<rparr>
   \<and> construct_bigrams (tokenize_call ''myVariableName'') ! 1 =
       \<lparr>tok_text = ''variable_name'', pos = 1, startchar = 2, end_pos = 3, endchar = 14\<rparr>
   \<and> length (construct_trigrams (tokenize_call ''myVariableName'')) = 1
   \<and> construct_trigrams (tokenize_call ''myVariableName'') ! 0 =
       \<lparr>tok_text = ''my_variable_name'', pos = 0, startchar = 0, end_pos = 3, endchar = 14\<rparr>
   \<and> construct_bigrams (tokenize_call ''ab'') = []
   \<and> construct_trigrams (tokenize_call ''myVariable'') = []"
proof -
  have t3: "tokenize_call ''myVariableName'' =
     [\<lparr>tok_text = ''my'', pos = 0, startchar = 0, end_pos = 1, endchar = 2\<rparr>,
      \<lparr>tok_text = ''variable'', pos = 1, startchar = 2, end_pos = 2, endchar = 10\<rparr>,
      \<lparr>tok_text = ''name'', pos = 2, startchar = 10, end_pos = 3, endchar = 14\<rparr>]"
    by code_simp
  have t1: "length (tokenize_call ''ab'') = 1"
    by code_simp
  have t2: "length (tokenize_call ''myVariable'') = 2"
    by code_simp
  show ?thesis
    using construct_ngrams_adjacent [of "tokenize_call ''myVariableName''"]
      construct_ngrams_adjacent [of "tokenize_call ''ab''"]
      construct_ngrams_adjacent [of "tokenize_call ''myVariable''"]
    by (simp add: t1 t2 t3)
qed

section \<open>What \<^verbatim>\<open>add_document\<close> does to the index\<close>

lemma update_fresh: "k \<notin> fst ` set al \<Longrightarrow> AList.update k v al = al @ [(k, v)]"
  by (induction al) auto

lemma map_of_Counter_fold:
  "map_of (fold (\<lambda>t c. AList.update t (case map_of c t of None \<Rightarrow> 1 | Some n \<Rightarrow> n + 1) c) tokens c0) t
     = (case map_of c0 t of
          None \<Rightarrow> if t \<in> set tokens then Some (count_list tokens t) else None
        | Some n \<Rightarrow> Some (n + count_list tokens t))"
  by (induction tokens arbitrary: c0) (auto simp: update_conv' split: option.splits)

lemma map_of_Counter:
  "map_of (Counter tokens) t = (if t \<in> set tokens then Some (count_list tokens t) else None)"
  by (simp add: Counter_def map_of_Counter_fold)

lemma distinct_Counter_fold:
  "distinct (map fst c0) \<Longrightarrow>
   distinct (map fst (fold (\<lambda>t c. AList.update t (case map_of c t of None \<Rightarrow> 1 | Some n \<Rightarrow> n + 1) c) tokens c0))"
  by (induction tokens arbitrary: c0) (auto simp: distinct_update)

lemma distinct_Counter: "distinct (map fst (Counter tokens))"
  by (simp add: Counter_def distinct_Counter_fold)

lemma postings_update:
  "postings (AList.update k v idx) term = (if term = k then v else postings idx term)"
  by (simp add: postings_def update_conv')

lemma postings_append_postings:
  "distinct (map fst token_freq) \<Longrightarrow>
   postings (append_postings doc_id token_freq idx) term
     = postings idx term @ (case map_of token_freq term of None \<Rightarrow> [] | Some f \<Rightarrow> [(doc_id, f)])"
proof (induction token_freq arbitrary: idx)
  case Nil
  then show ?case by (simp add: append_postings_def)
next
  case (Cons p token_freq)
  obtain token freq where p: "p = (token, freq)" by (cases p)
  have step: "append_postings doc_id (p # token_freq) idx
      = append_postings doc_id token_freq
          (AList.update token (postings idx token @ [(doc_id, freq)]) idx)"
    by (simp add: append_postings_def p)
  from Cons.prems have notin: "token \<notin> fst ` set token_freq" and d: "distinct (map fst token_freq)"
    by (auto simp: p)
  have none: "map_of token_freq token = None"
    using notin by (simp add: map_of_eq_None_iff)
  show ?case
    unfolding step Cons.IH [OF d]
    by (auto simp: postings_update p none)
qed

lemma postings_index_document:
  "postings (inverted_index (index_document self doc_id tokens)) term
     = postings (inverted_index self) term
        @ (if term \<in> set tokens then [(doc_id, count_list tokens term)] else [])"
  by (simp add: index_document_def Let_def postings_append_postings distinct_Counter map_of_Counter)

lemma postings_add_document:
  "postings (inverted_index (add_document self ttl tokens md)) term
     = postings (inverted_index self) term
        @ (if term \<in> set tokens then [(ttl, count_list tokens term)] else [])"
  by (simp add: add_document_def Let_def postings_index_document)

lemma doc_lengths_add_document:
  "doc_lengths (add_document self ttl tokens md)
     = AList.update ttl (length tokens) (doc_lengths self)"
  by (simp add: add_document_def index_document_def Let_def)

lemma avg_doc_length_add_document:
  "avg_doc_length (add_document self ttl tokens md)
     = real (sum_list (map snd (doc_lengths (add_document self ttl tokens md))))
         / real (length (doc_lengths (add_document self ttl tokens md)))"
  by (simp add: add_document_def index_document_def Let_def)

lemma k1_b_add_document:
  "k1 (add_document self ttl tokens md) = k1 self"
  "b (add_document self ttl tokens md) = b self"
  by (simp_all add: add_document_def index_document_def Let_def)


lemma add_document_calls_Cons:
  "add_document_calls idx ((ttl, toks, md) # calls)
     = add_document_calls (add_document idx ttl toks md) calls"
  by (simp add: add_document_calls_def)

lemma postings_add_document_calls:
  "postings (inverted_index (add_document_calls idx calls)) term
     = postings (inverted_index idx) term
        @ concat (map (\<lambda>(ttl, toks, md).
                         if term \<in> set toks then [(ttl, count_list toks term)] else []) calls)"
proof (induction calls arbitrary: idx)
  case Nil
  then show ?case by (simp add: add_document_calls_def)
next
  case (Cons c calls)
  obtain ttl toks md where c: "c = (ttl, toks, md)" by (cases c)
  show ?case
    unfolding c add_document_calls_Cons Cons.IH
    by (simp add: postings_add_document)
qed

lemma doc_lengths_add_document_calls:
  "distinct (map fst calls) \<Longrightarrow> fst ` set (doc_lengths idx) \<inter> fst ` set calls = {} \<Longrightarrow>
   doc_lengths (add_document_calls idx calls)
     = doc_lengths idx @ map (\<lambda>(ttl, toks, md). (ttl, length toks)) calls"
proof (induction calls arbitrary: idx)
  case Nil
  then show ?case by (simp add: add_document_calls_def)
next
  case (Cons c calls)
  obtain ttl toks md where c: "c = (ttl, toks, md)" by (cases c)
  from Cons.prems have fresh: "ttl \<notin> fst ` set (doc_lengths idx)"
    by (auto simp: c)
  have dl: "doc_lengths (add_document idx ttl toks md) = doc_lengths idx @ [(ttl, length toks)]"
    by (simp add: doc_lengths_add_document update_fresh [OF fresh])
  from Cons.prems have d: "distinct (map fst calls)" and n: "ttl \<notin> fst ` set calls"
    by (auto simp: c)
  have disj: "fst ` set (doc_lengths (add_document idx ttl toks md)) \<inter> fst ` set calls = {}"
    using Cons.prems(2) n by (auto simp: dl c)
  show ?case
    unfolding c add_document_calls_Cons Cons.IH [OF d disj]
    by (simp add: dl)
qed

lemma avg_doc_length_add_document_calls:
  "avg_doc_length (add_document_calls (add_document idx ttl toks md) calls)
     = real (sum_list (map snd (doc_lengths (add_document_calls (add_document idx ttl toks md) calls))))
         / real (length (doc_lengths (add_document_calls (add_document idx ttl toks md) calls)))"
proof (induction calls arbitrary: idx ttl toks md)
  case Nil
  show ?case
    unfolding add_document_calls_def fold.simps id_apply
    by (rule avg_doc_length_add_document)
next
  case (Cons c calls)
  obtain ttl' toks' md' where c: "c = (ttl', toks', md')" by (cases c)
  show ?case
    unfolding c add_document_calls_Cons by (rule Cons.IH)
qed

lemma k1_b_add_document_calls:
  "k1 (add_document_calls idx calls) = k1 idx"
  "b (add_document_calls idx calls) = b idx"
  by (induction calls arbitrary: idx) (auto simp: add_document_calls_def k1_b_add_document)

text \<open>Facts about an index built from the empty one by calls with distinct titles.\<close>

lemma built_doc_lengths:
  "distinct (map fst calls) \<Longrightarrow>
   doc_lengths (add_document_calls CustomIndex_init calls)
     = map (\<lambda>(ttl, toks, md). (ttl, length toks)) calls"
  using doc_lengths_add_document_calls [of calls CustomIndex_init]
  by (simp add: CustomIndex_init_def)

lemma built_postings:
  "postings (inverted_index (add_document_calls CustomIndex_init calls)) term
     = concat (map (\<lambda>(ttl, toks, md).
                      if term \<in> set toks then [(ttl, count_list toks term)] else []) calls)"
proof -
  have "postings (inverted_index CustomIndex_init) term = []"
    by (simp add: CustomIndex_init_def postings_def)
  then show ?thesis
    by (simp add: postings_add_document_calls)
qed

lemma built_posting_origin:
  assumes "(d, f) \<in> set (postings (inverted_index (add_document_calls CustomIndex_init calls)) term)"
  shows "\<exists>toks md. (d, toks, md) \<in> set calls \<and> term \<in> set toks \<and> f = count_list toks term"
  using assms unfolding built_postings by (auto split: if_splits)

lemma built_map_of_doc_lengths:
  assumes "distinct (map fst calls)" and "(d, toks, md) \<in> set calls"
  shows "map_of (doc_lengths (add_document_calls CustomIndex_init calls)) d = Some (length toks)"
proof -
  have "distinct (map fst (map (\<lambda>(ttl, toks, md). (ttl, length toks)) calls))"
    using assms(1) by (simp add: comp_def case_prod_unfold)
  moreover have "(d, length toks) \<in> set (map (\<lambda>(ttl, toks, md). (ttl, length toks)) calls)"
    using assms(2) by force
  ultimately show ?thesis
    unfolding built_doc_lengths [OF assms(1)] by (rule map_of_is_SomeI)
qed

lemma built_postings_length:
  "length (postings (inverted_index (add_document_calls CustomIndex_init calls)) term)
     \<le> length calls"
  unfolding built_postings
  by (induction calls) (auto split: if_splits)

lemma built_avg:
  "calls \<noteq> [] \<Longrightarrow>
   avg_doc_length (add_document_calls CustomIndex_init calls)
     = real (sum_list (map snd (doc_lengths (add_document_calls CustomIndex_init calls))))
         / real (length (doc_lengths (add_document_calls CustomIndex_init calls)))"
proof (cases calls)
  case Nil
  then show "calls \<noteq> [] \<Longrightarrow> ?thesis" by simp
next
  case (Cons c cs)
  obtain ttl toks md where c: "c = (ttl, toks, md)" by (cases c)
  show ?thesis
    unfolding Cons c add_document_calls_Cons by (rule avg_doc_length_add_document_calls)
qed

lemma count_list_pos: "x \<in> set xs \<Longrightarrow> 1 \<le> count_list xs x"
  by (induction xs) auto

section \<open>Where \<^verbatim>\<open>bm25\<close> and the search return a value\<close>

lemma idf_arg_eq:
  "idf_arg self term
     = (real (length (doc_lengths self)) + 1)
         / (real (length (postings (inverted_index self) term)) + 1 / 2)"
  by (simp add: idf_arg_def Let_def field_simps)

lemma idf_arg_pos: "0 < idf_arg self term"
  unfolding idf_arg_eq by (intro divide_pos_pos) simp_all

lemma idf_arg_gt_1:
  assumes "length (postings (inverted_index self) term) \<le> length (doc_lengths self)"
  shows "1 < idf_arg self term"
proof -
  have "real (length (postings (inverted_index self) term)) + 1 / 2
          < real (length (doc_lengths self)) + 1"
    using assms by simp
  then show ?thesis
    unfolding idf_arg_eq by (simp add: field_simps)
qed

lemma tf_denominator_pos:
  assumes "k1 self = 12 / 10" and "b self = 75 / 100" and "0 < avg_doc_length self"
  shows "0 < tf_denominator self doc_length term_freq"
proof -
  have "0 \<le> real doc_length / avg_doc_length self"
    using assms(3) by simp
  then have "0 < 12 / 10 * (1 - 75 / 100 + 75 / 100 * (real doc_length / avg_doc_length self))"
    by simp
  then show ?thesis
    unfolding tf_denominator_def assms(1,2)
    by (metis add_nonneg_pos of_nat_0_le_iff)
qed

lemma bm25_value:
  assumes "map_of (doc_lengths self) doc_id = Some doc_length"
    and "avg_doc_length self \<noteq> 0"
    and "tf_denominator self doc_length term_freq \<noteq> 0"
  shows "bm25 self doc_id term term_freq
           = Inr (ln (idf_arg self term)
                    * (((k1 self + 1) * real term_freq)
                         / tf_denominator self doc_length term_freq))"
  using assms idf_arg_pos [of self "term"] by (simp add: bm25_def Let_def)

lemma built_k1_b:
  "k1 (add_document_calls CustomIndex_init calls) = 12 / 10"
  "b (add_document_calls CustomIndex_init calls) = 75 / 100"
  by (simp_all add: k1_b_add_document_calls CustomIndex_init_def)

lemma built_doc_length_of_posting:
  assumes "distinct (map fst calls)"
    and "(d, f) \<in> set (postings (inverted_index (add_document_calls CustomIndex_init calls)) term)"
  shows "\<exists>n. map_of (doc_lengths (add_document_calls CustomIndex_init calls)) d = Some n
             \<and> 1 \<le> n \<and> 1 \<le> f"
proof -
  from built_posting_origin [OF assms(2)] obtain toks md
    where mem: "(d, toks, md) \<in> set calls" and t: "term \<in> set toks"
      and f: "f = count_list toks term"
    by blast
  have "map_of (doc_lengths (add_document_calls CustomIndex_init calls)) d = Some (length toks)"
    by (rule built_map_of_doc_lengths [OF assms(1) mem])
  moreover have "1 \<le> length toks"
    using t by (cases toks) auto
  moreover have "1 \<le> f"
    unfolding f by (rule count_list_pos [OF t])
  ultimately show ?thesis by blast
qed

lemma built_avg_pos:
  assumes "distinct (map fst calls)"
    and "postings (inverted_index (add_document_calls CustomIndex_init calls)) term \<noteq> []"
  shows "0 < avg_doc_length (add_document_calls CustomIndex_init calls)"
proof -
  let ?I = "add_document_calls CustomIndex_init calls"
  from assms(2) obtain d f where df: "(d, f) \<in> set (postings (inverted_index ?I) term)"
    by (cases "postings (inverted_index ?I) term") auto
  from built_doc_length_of_posting [OF assms(1) df] obtain n
    where n: "map_of (doc_lengths ?I) d = Some n" "1 \<le> n"
    by blast
  from n(1) have "(d, n) \<in> set (doc_lengths ?I)"
    by (rule map_of_SomeD)
  then have "n \<in> set (map snd (doc_lengths ?I))"
    by force
  then have "n \<le> sum_list (map snd (doc_lengths ?I))"
    by (simp add: member_le_sum_list)
  with n(2) have s: "0 < sum_list (map snd (doc_lengths ?I))"
    by simp
  have ne: "calls \<noteq> []"
    using df by (auto simp: built_postings)
  then have l: "0 < length (doc_lengths ?I)"
    by (simp add: built_doc_lengths [OF assms(1)])
  show ?thesis
    unfolding built_avg [OF ne] using s l by simp
qed

lemma built_bm25_ok:
  assumes "distinct (map fst calls)"
    and "(d, f) \<in> set (postings (inverted_index (add_document_calls CustomIndex_init calls)) term)"
  shows "\<exists>v. bm25 (add_document_calls CustomIndex_init calls) d term f = Inr v"
proof -
  let ?I = "add_document_calls CustomIndex_init calls"
  from built_doc_length_of_posting [OF assms] obtain n
    where n: "map_of (doc_lengths ?I) d = Some n"
    by blast
  have "postings (inverted_index ?I) term \<noteq> []"
    using assms(2) by auto
  then have avg: "0 < avg_doc_length ?I"
    by (rule built_avg_pos [OF assms(1)])
  have "0 < tf_denominator ?I n f"
    by (rule tf_denominator_pos [OF built_k1_b avg])
  then show ?thesis
    using bm25_value [OF n, of f "term"] avg by simp
qed

lemma score_postings_ok:
  "(\<And>d f. (d, f) \<in> set ps \<Longrightarrow> \<exists>v. bm25 self d token f = Inr v) \<Longrightarrow>
   \<exists>scores'. score_postings self token scores ps = Inr scores'"
proof (induction ps arbitrary: scores)
  case Nil
  show ?case by simp
next
  case (Cons p ps)
  obtain d f where p: "p = (d, f)" by (cases p)
  from Cons.prems [of d f] obtain v where v: "bm25 self d token f = Inr v"
    by (auto simp: p)
  have "\<exists>scores'. score_postings self token (AList.update d (score_of scores d + v) scores) ps
          = Inr scores'"
    by (rule Cons.IH) (simp add: Cons.prems)
  then show ?case by (simp add: p v)
qed

lemma score_tokens_ok:
  "(\<And>token d f. token \<in> set tokens \<Longrightarrow> (d, f) \<in> set (postings (inverted_index self) token)
       \<Longrightarrow> \<exists>v. bm25 self d token f = Inr v) \<Longrightarrow>
   \<exists>scores'. score_tokens self scores tokens = Inr scores'"
proof (induction tokens arbitrary: scores)
  case Nil
  show ?case by simp
next
  case (Cons token tokens)
  have "\<exists>s1. score_postings self token scores (postings (inverted_index self) token) = Inr s1"
    by (rule score_postings_ok) (simp add: Cons.prems)
  then obtain s1
    where s1: "score_postings self token scores (postings (inverted_index self) token) = Inr s1"
    by blast
  have "\<exists>scores'. score_tokens self s1 tokens = Inr scores'"
    by (rule Cons.IH) (simp add: Cons.prems)
  then show ?case by (simp add: s1)
qed

lemma search_index_ok:
  assumes "\<And>token d f. token \<in> set (query_tokens query)
      \<Longrightarrow> (d, f) \<in> set (postings (inverted_index self) token)
      \<Longrightarrow> \<exists>v. bm25 self d token f = Inr v"
  shows "\<exists>res. CustomIndex_search_index self query = Inr res"
proof -
  from score_tokens_ok [of "query_tokens query" self "[]"] assms
  obtain scores where "score_tokens self [] (query_tokens query) = Inr scores"
    by blast
  then show ?thesis
    by (simp add: CustomIndex_search_index_def)
qed

section \<open>The average document length\<close>

text \<open>
  C6: after every call of \<^verbatim>\<open>add_document\<close> (and of \<^verbatim>\<open>index_document\<close>), on any index and so
  after any sequence of earlier insertions, \<open>avg_doc_length\<close> is the sum of the values of
  \<open>doc_lengths\<close> divided by the number of its entries, which is not zero.
\<close>

theorem avg_doc_length_recomputed:
  "avg_doc_length (add_document self ttl tokens md)
     = real (sum_list (map snd (doc_lengths (add_document self ttl tokens md))))
         / real (length (doc_lengths (add_document self ttl tokens md)))
   \<and> 0 < length (doc_lengths (add_document self ttl tokens md))
   \<and> avg_doc_length (index_document self ttl tokens)
     = real (sum_list (map snd (doc_lengths (index_document self ttl tokens))))
         / real (length (doc_lengths (index_document self ttl tokens)))
   \<and> 0 < length (doc_lengths (index_document self ttl tokens))"
proof (intro conjI)
  show "avg_doc_length (add_document self ttl tokens md)
     = real (sum_list (map snd (doc_lengths (add_document self ttl tokens md))))
         / real (length (doc_lengths (add_document self ttl tokens md)))"
    by (rule avg_doc_length_add_document)
  show "0 < length (doc_lengths (add_document self ttl tokens md))"
    by (simp add: doc_lengths_add_document)
  show "avg_doc_length (index_document self ttl tokens)
     = real (sum_list (map snd (doc_lengths (index_document self ttl tokens))))
         / real (length (doc_lengths (index_document self ttl tokens)))"
    by (simp add: index_document_def Let_def)
  show "0 < length (doc_lengths (index_document self ttl tokens))"
    by (simp add: index_document_def Let_def)
qed

theorem avg_doc_length_recomputed_witness:
  "avg_doc_length
     (add_document (add_document CustomIndex_init ''a.py:1-2'' [''ab'', ''cd'', ''ab_cd''] [])
        ''b.py:1-9'' [''ef''] []) = 2
   \<and> doc_lengths
     (add_document (add_document CustomIndex_init ''a.py:1-2'' [''ab'', ''cd'', ''ab_cd''] [])
        ''b.py:1-9'' [''ef''] []) = [(''a.py:1-2'', 3), (''b.py:1-9'', 1)]"
proof -
  have dl: "doc_lengths
     (add_document (add_document CustomIndex_init ''a.py:1-2'' [''ab'', ''cd'', ''ab_cd''] [])
        ''b.py:1-9'' [''ef''] []) = [(''a.py:1-2'', 3), (''b.py:1-9'', 1)]"
    by (simp add: doc_lengths_add_document CustomIndex_init_def)
  show ?thesis
    using avg_doc_length_recomputed
      [of "add_document CustomIndex_init ''a.py:1-2'' [''ab'', ''cd'', ''ab_cd''] []"
          "''b.py:1-9''" "[''ef'']" "[]"]
    by (simp add: dl)
qed

section \<open>The search on an index built by \<^verbatim>\<open>add_document\<close>\<close>

lemma readded_document_index:
  "CustomIndex_search_index
      (add_document (add_document CustomIndex_init ''A'' [''xx''] []) ''A'' [] []) ''xx''
     = Inl ZeroDivisionError
   \<and> postings (inverted_index
        (add_document (add_document CustomIndex_init ''A'' [''xx''] []) ''A'' [] [])) ''xx''
     = [(''A'', 1)]
   \<and> map_of (doc_lengths
        (add_document (add_document CustomIndex_init ''A'' [''xx''] []) ''A'' [] [])) ''A''
     = Some 0
   \<and> avg_doc_length
        (add_document (add_document CustomIndex_init ''A'' [''xx''] []) ''A'' [] []) = 0"
proof -
  let ?I = "add_document (add_document CustomIndex_init ''A'' [''xx''] []) ''A'' [] []"
  have q: "query_tokens ''xx'' = [''xx'']"
    by code_simp
  have p0: "postings (inverted_index CustomIndex_init) ''xx'' = []"
    by (simp add: CustomIndex_init_def postings_def)
  have p: "postings (inverted_index ?I) ''xx'' = [(''A'', 1)]"
    by (simp add: postings_add_document p0)
  have dl: "doc_lengths ?I = [(''A'', 0)]"
    by (simp add: doc_lengths_add_document CustomIndex_init_def)
  have avg: "avg_doc_length ?I = 0"
    unfolding avg_doc_length_add_document dl by simp
  have "bm25 ?I ''A'' ''xx'' 1 = Inl ZeroDivisionError"
    using idf_arg_pos [of ?I "''xx''"] by (simp add: bm25_def dl avg)
  then have "CustomIndex_search_index ?I ''xx'' = Inl ZeroDivisionError"
    by (simp add: CustomIndex_search_index_def q p)
  then show ?thesis
    by (simp add: p dl avg)
qed

text \<open>
  C10 as stated fails when a title is added twice: the second call overwrites the length of
  the document, the postings of the first stay. Here the document \<^verbatim>\<open>A\<close> is added with the
  token \<^verbatim>\<open>xx\<close> and then again with no token. Its posting for \<^verbatim>\<open>xx\<close> remains, its length is
  0 and so is the average, and the search for \<^verbatim>\<open>xx\<close> divides by zero.
\<close>

theorem search_after_readding_a_document:
  "CustomIndex_search_index
      (add_document (add_document CustomIndex_init ''A'' [''xx''] []) ''A'' [] []) ''xx''
     = Inl ZeroDivisionError
   \<and> postings (inverted_index
        (add_document (add_document CustomIndex_init ''A'' [''xx''] []) ''A'' [] [])) ''xx''
     = [(''A'', 1)]
   \<and> map_of (doc_lengths
        (add_document (add_document CustomIndex_init ''A'' [''xx''] []) ''A'' [] [])) ''A''
     = Some 0
   \<and> avg_doc_length
        (add_document (add_document CustomIndex_init ''A'' [''xx''] []) ''A'' [] []) = 0"
  by (rule readded_document_index)

text \<open>
  C10, for titles that are pairwise distinct: on an index built from the empty one by calls of
  \<^verbatim>\<open>add_document\<close>, the search returns a result for every query; every document of every
  posting list has a length in \<open>doc_lengths\<close>, which is at least 1; where a posting exists the
  average length is positive and \<^verbatim>\<open>bm25\<close> returns a value for it; the argument of the
  logarithm is positive, and so is the denominator of \<open>tf\<close> when the average is.
\<close>

theorem search_index_well_defined:
  assumes "distinct (map fst calls)"
  shows "(\<exists>res. CustomIndex_search_index (add_document_calls CustomIndex_init calls) query = Inr res)
    \<and> (\<forall>trm d f. (d, f) \<in> set (postings (inverted_index (add_document_calls CustomIndex_init calls)) trm)
          \<longrightarrow> (\<exists>n. map_of (doc_lengths (add_document_calls CustomIndex_init calls)) d = Some n
                    \<and> 1 \<le> n)
              \<and> 0 < avg_doc_length (add_document_calls CustomIndex_init calls)
              \<and> (\<exists>v. bm25 (add_document_calls CustomIndex_init calls) d trm f = Inr v))
    \<and> (\<forall>trm. 0 < idf_arg (add_document_calls CustomIndex_init calls) trm)
    \<and> (\<forall>n f. 0 < avg_doc_length (add_document_calls CustomIndex_init calls)
          \<longrightarrow> 0 < tf_denominator (add_document_calls CustomIndex_init calls) n f)"
proof (intro conjI allI impI)
  show "\<exists>res. CustomIndex_search_index (add_document_calls CustomIndex_init calls) query = Inr res"
    by (rule search_index_ok) (rule built_bm25_ok [OF assms])
next
  fix trm d f
  assume m: "(d, f) \<in> set (postings (inverted_index (add_document_calls CustomIndex_init calls)) trm)"
  from built_doc_length_of_posting [OF assms m]
  show "\<exists>n. map_of (doc_lengths (add_document_calls CustomIndex_init calls)) d = Some n \<and> 1 \<le> n"
    by blast
  from m have "postings (inverted_index (add_document_calls CustomIndex_init calls)) trm \<noteq> []"
    by auto
  then show "0 < avg_doc_length (add_document_calls CustomIndex_init calls)"
    by (rule built_avg_pos [OF assms])
  show "\<exists>v. bm25 (add_document_calls CustomIndex_init calls) d trm f = Inr v"
    by (rule built_bm25_ok [OF assms m])
next
  fix trm
  show "0 < idf_arg (add_document_calls CustomIndex_init calls) trm"
    by (rule idf_arg_pos)
next
  fix n f
  assume "0 < avg_doc_length (add_document_calls CustomIndex_init calls)"
  then show "0 < tf_denominator (add_document_calls CustomIndex_init calls) n f"
    by (rule tf_denominator_pos [OF built_k1_b])
qed


theorem search_index_well_defined_witness:
  "distinct (map fst [(''A'', [''xx'', ''yy''], []), (''B'', [''xx''], [(''k'', ''v'')])])
   \<and> (\<exists>res. CustomIndex_search_index
         (add_document_calls CustomIndex_init
            [(''A'', [''xx'', ''yy''], []), (''B'', [''xx''], [(''k'', ''v'')])]) ''xx'' = Inr res)
   \<and> (\<exists>n. map_of (doc_lengths
         (add_document_calls CustomIndex_init
            [(''A'', [''xx'', ''yy''], []), (''B'', [''xx''], [(''k'', ''v'')])])) ''B'' = Some n
         \<and> 1 \<le> n)
   \<and> 0 < avg_doc_length
         (add_document_calls CustomIndex_init
            [(''A'', [''xx'', ''yy''], []), (''B'', [''xx''], [(''k'', ''v'')])])
   \<and> (\<exists>v. bm25
         (add_document_calls CustomIndex_init
            [(''A'', [''xx'', ''yy''], []), (''B'', [''xx''], [(''k'', ''v'')])])
         ''B'' ''xx'' 1 = Inr v)"
proof -
  let ?calls = "[(''A'', [''xx'', ''yy''], []), (''B'', [''xx''], [(''k'', ''v'')])]"
  have d: "distinct (map fst ?calls)"
    by simp
  have m: "(''B'', 1) \<in> set (postings (inverted_index (add_document_calls CustomIndex_init ?calls)) ''xx'')"
    by (simp add: built_postings)
  show ?thesis
    using search_index_well_defined [OF d, of "''xx''"] m d by blast
qed

section \<open>An empty list of snippets, an absent index\<close>

text \<open>
  C7: for an empty list of snippets \<^verbatim>\<open>prepare_index_from_snippets\<close> returns \<^verbatim>\<open>None\<close> and raises
  nothing, whatever the tokenizer behind the cache does; and for every query the search
  function of the module, given \<^verbatim>\<open>None\<close> as the index, returns the empty mapping and raises
  nothing.
\<close>

theorem empty_corpus:
  "prepare_index_from_snippets compute_tokens [] len_repo_cache_dir = Inr None
   \<and> search_index query None = Inr []"
  by (simp add: prepare_index_from_snippets_def snippets_to_docs_def search_index_def)

theorem empty_corpus_witness:
  "prepare_index_from_snippets (\<lambda>c. Inr (compute_document_tokens c)) [] 0 = Inr None
   \<and> prepare_index_from_snippets (\<lambda>c. Inl FileNotFoundError) [] 7 = Inr None
   \<and> search_index ''user name'' None = Inr []"
  using empty_corpus [of "\<lambda>c. Inr (compute_document_tokens c)" 0 "''user name''"]
    empty_corpus [of "\<lambda>c. Inl FileNotFoundError" 7 "''user name''"]
  by simp

section \<open>Exceptions at the boundary\<close>

lemma tokenize_docs_raises:
  assumes "\<forall>doc \<in> set before. \<exists>toks. compute_tokens (content doc) = Inr toks"
    and "compute_tokens (content doc) = Inl e"
  shows "tokenize_docs compute_tokens (before @ doc # rest) = Inl e"
  using assms by (induction before) auto

lemma bm25_raises:
  "bm25 self d trm f = Inl e \<Longrightarrow> is_Exception e"
  by (auto simp: bm25_def Let_def split: if_splits option.splits)

lemma score_postings_raises:
  "score_postings self token scores ps = Inl e \<Longrightarrow> is_Exception e"
proof (induction ps arbitrary: scores)
  case Nil
  then show ?case by simp
next
  case (Cons p ps)
  obtain d f where p: "p = (d, f)" by (cases p)
  show ?case
  proof (cases "bm25 self d token f")
    case (Inl e')
    with Cons.prems have "e' = e"
      by (simp add: p)
    with Inl show ?thesis
      by (simp add: bm25_raises)
  next
    case (Inr v)
    with Cons.prems show ?thesis
      by (auto simp: p intro: Cons.IH)
  qed
qed

lemma score_tokens_raises:
  "score_tokens self scores tokens = Inl e \<Longrightarrow> is_Exception e"
proof (induction tokens arbitrary: scores)
  case Nil
  then show ?case by simp
next
  case (Cons token tokens)
  show ?case
  proof (cases "score_postings self token scores (postings (inverted_index self) token)")
    case (Inl e')
    with Cons.prems have "e' = e"
      by simp
    with Inl show ?thesis
      by (simp add: score_postings_raises)
  next
    case (Inr s1)
    with Cons.prems show ?thesis
      by (auto intro: Cons.IH)
  qed
qed

lemma CustomIndex_search_index_raises:
  "CustomIndex_search_index self query = Inl e \<Longrightarrow> is_Exception e"
  by (auto simp: CustomIndex_search_index_def split: sum.splits dest: score_tokens_raises)

lemma normalize_raises:
  "normalize res = Inl e \<Longrightarrow> is_Exception e"
  by (auto simp: normalize_def Let_def split: if_splits prod.splits)

lemma search_body_raises:
  "search_body query i = Inl e \<Longrightarrow> is_Exception e"
  by (auto simp: search_body_def split: sum.splits
        dest: CustomIndex_search_index_raises normalize_raises)

lemma search_index_never_raises:
  "\<exists>res. search_index query index = Inr res"
proof (cases index)
  case None
  then show ?thesis by (simp add: search_index_def)
next
  case (Some i)
  show ?thesis
  proof (cases "search_body query i")
    case (Inl e)
    then have "is_Exception e"
      by (rule search_body_raises)
    then have "e \<noteq> SystemExit"
      by auto
    with Inl \<open>is_Exception e\<close> show ?thesis
      by (simp add: search_index_def Some search_handlers_def)
  next
    case (Inr res)
    then show ?thesis
      by (simp add: search_index_def Some search_handlers_def)
  qed
qed

text \<open>
  C8 as stated fails for an exception that is not an instance of \<^verbatim>\<open>Exception\<close>:
  \<^verbatim>\<open>except Exception\<close> does not catch \<^verbatim>\<open>KeyboardInterrupt\<close> (nor \<^verbatim>\<open>GeneratorExit\<close>), which is
  not \<^verbatim>\<open>SystemExit\<close> either, so it leaves the function.
\<close>

theorem keyboard_interrupt_not_caught:
  "search_handlers (Inl KeyboardInterrupt) = Inl KeyboardInterrupt
   \<and> KeyboardInterrupt \<noteq> SystemExit
   \<and> search_handlers (Inl KeyboardInterrupt) \<noteq> Inr []"
  by (simp add: search_handlers_def)

text \<open>
  C8, for the exceptions that are instances of \<^verbatim>\<open>Exception\<close>. The search function of the
  module is its handlers applied to the outcome of the body of its \<^verbatim>\<open>try\<close> statement: an
  exception of the body that is an instance of \<^verbatim>\<open>Exception\<close> becomes the empty mapping,
  \<^verbatim>\<open>SystemExit\<close> is raised again, a result is returned as it is. The body as modelled raises
  instances of \<^verbatim>\<open>Exception\<close> only, so the function returns a mapping for every query and
  index. In the builder, when the call of the tokenizer for some document raises
  \<^verbatim>\<open>FileNotFoundError\<close> and the calls for the documents before it returned, the builder returns
  the index as it is then: the empty index, since documents are added only in the second
  loop, which raises nothing; when no call raises, it returns the index holding all documents.
\<close>

theorem failures_absorbed_at_the_boundary:
  "search_index query (Some i) = search_handlers (search_body query i)
   \<and> (\<forall>e. is_Exception e \<longrightarrow> search_handlers (Inl e) = Inr [])
   \<and> search_handlers (Inl SystemExit) = Inl SystemExit
   \<and> (\<forall>res. search_handlers (Inr res) = Inr res)
   \<and> (\<exists>res. search_index query index = Inr res)
   \<and> ((\<forall>s \<in> set before. \<exists>toks. compute_tokens (snippet_text s) = Inr toks)
        \<and> compute_tokens (snippet_text snippet) = Inl FileNotFoundError
       \<longrightarrow> prepare_index_from_snippets compute_tokens (before @ snippet # rest) n
             = Inr (Some CustomIndex_init))
   \<and> (snippets \<noteq> [] \<and> tokenize_docs compute_tokens (snippets_to_docs snippets n) = Inr all_tokens
       \<longrightarrow> prepare_index_from_snippets compute_tokens snippets n
             = Inr (Some (add_documents CustomIndex_init
                            (zip (map doc_id_of (snippets_to_docs snippets n)) all_tokens))))"
proof (intro conjI allI impI)
  show "search_index query (Some i) = search_handlers (search_body query i)"
    by (simp add: search_index_def)
  show "search_handlers (Inl SystemExit) = Inl SystemExit"
    by (simp add: search_handlers_def)
  show "\<exists>res. search_index query index = Inr res"
    by (rule search_index_never_raises)
next
  fix e
  assume "is_Exception e"
  then show "search_handlers (Inl e) = Inr []"
    by (auto simp: search_handlers_def)
next
  fix res
  show "search_handlers (Inr res) = Inr res"
    by (simp add: search_handlers_def)
next
  assume h: "(\<forall>s \<in> set before. \<exists>toks. compute_tokens (snippet_text s) = Inr toks)
        \<and> compute_tokens (snippet_text snippet) = Inl FileNotFoundError"
  let ?doc = "\<lambda>s. \<lparr>title = slice_from (file_path s) n, content = snippet_text s,
                    doc_start = snippet_start s, doc_end = snippet_end s\<rparr>"
  have docs: "snippets_to_docs (before @ snippet # rest) n
                = map ?doc before @ ?doc snippet # map ?doc rest"
    by (simp add: snippets_to_docs_def)
  have "tokenize_docs compute_tokens (map ?doc before @ ?doc snippet # map ?doc rest)
          = Inl FileNotFoundError"
    by (rule tokenize_docs_raises) (use h in auto)
  then show "prepare_index_from_snippets compute_tokens (before @ snippet # rest) n
               = Inr (Some CustomIndex_init)"
    unfolding prepare_index_from_snippets_def docs Let_def by simp
next
  assume "snippets \<noteq> [] \<and> tokenize_docs compute_tokens (snippets_to_docs snippets n) = Inr all_tokens"
  then show "prepare_index_from_snippets compute_tokens snippets n
             = Inr (Some (add_documents CustomIndex_init
                            (zip (map doc_id_of (snippets_to_docs snippets n)) all_tokens)))"
    by (simp add: prepare_index_from_snippets_def Let_def snippets_to_docs_def)
qed


theorem failures_absorbed_at_the_boundary_witness:
  "search_body ''xx'' (add_document (add_document CustomIndex_init ''A'' [''xx''] []) ''A'' [] [])
     = Inl ZeroDivisionError
   \<and> search_index ''xx''
        (Some (add_document (add_document CustomIndex_init ''A'' [''xx''] []) ''A'' [] []))
     = Inr []
   \<and> search_handlers (Inl SystemExit) = Inl SystemExit
   \<and> prepare_index_from_snippets
        (\<lambda>c. if c = ''missing'' then Inl FileNotFoundError else Inr (compute_document_tokens c))
        [\<lparr>file_path = ''repo/a.py'', snippet_text = ''def getUserName(): pass'',
           snippet_start = 1, snippet_end = 2\<rparr>,
         \<lparr>file_path = ''repo/b.py'', snippet_text = ''missing'',
           snippet_start = 1, snippet_end = 9\<rparr>] 5
     = Inr (Some CustomIndex_init)"
proof -
  let ?I = "add_document (add_document CustomIndex_init ''A'' [''xx''] []) ''A'' [] []"
  let ?tok = "\<lambda>c. if c = ''missing'' then Inl FileNotFoundError
                   else Inr (compute_document_tokens c)"
  let ?s1 = "\<lparr>file_path = ''repo/a.py'', snippet_text = ''def getUserName(): pass'',
               snippet_start = 1, snippet_end = 2\<rparr>"
  let ?s2 = "\<lparr>file_path = ''repo/b.py'', snippet_text = ''missing'',
               snippet_start = 1, snippet_end = 9\<rparr>"
  note t = failures_absorbed_at_the_boundary
    [where query = "''xx''" and i = ?I and compute_tokens = ?tok
       and before = "[?s1]" and snippet = ?s2 and rest = "[]" and n = 5]
  have body: "search_body ''xx'' ?I = Inl ZeroDivisionError"
    using readded_document_index by (simp add: search_body_def)
  from t have "search_index ''xx'' (Some ?I) = search_handlers (search_body ''xx'' ?I)"
    by blast
  moreover from t have "is_Exception ZeroDivisionError \<longrightarrow> search_handlers (Inl ZeroDivisionError) = Inr []"
    by blast
  ultimately have 1: "search_index ''xx'' (Some ?I) = Inr []"
    by (simp add: body)
  from t have 2: "search_handlers (Inl SystemExit) = Inl SystemExit"
    by blast
  from t have "(\<forall>s \<in> set [?s1]. \<exists>toks. ?tok (snippet_text s) = Inr toks)
        \<and> ?tok (snippet_text ?s2) = Inl FileNotFoundError
       \<longrightarrow> prepare_index_from_snippets ?tok ([?s1] @ ?s2 # []) 5 = Inr (Some CustomIndex_init)"
    by blast
  then have 3: "prepare_index_from_snippets ?tok [?s1, ?s2] 5 = Inr (Some CustomIndex_init)"
    by simp
  show ?thesis
    using body 1 2 3 by blast
qed

section \<open>What the search computes\<close>

text \<open>The two loops as one pass over the pairs of a document and a BM25 value.\<close>

lemma score_postings_Inr:
  "score_postings self token scores ps = Inr scores' \<Longrightarrow>
   (\<forall>(d, f) \<in> set ps. \<exists>v. bm25 self d token f = Inr v)
   \<and> scores' = fold (\<lambda>(d, v) s. AList.update d (score_of s d + v) s)
                  (map (\<lambda>(d, f). (d, projr (bm25 self d token f))) ps) scores"
proof (induction ps arbitrary: scores)
  case Nil
  then show ?case by simp
next
  case (Cons p ps)
  obtain d f where p: "p = (d, f)" by (cases p)
  from Cons.prems obtain v where v: "bm25 self d token f = Inr v"
    by (cases "bm25 self d token f") (simp_all add: p)
  from Cons.prems have
    "score_postings self token (AList.update d (score_of scores d + v) scores) ps = Inr scores'"
    by (simp add: p v)
  from Cons.IH [OF this] show ?case
    by (simp add: p v)
qed

lemma score_tokens_Inr:
  "score_tokens self scores tokens = Inr scores' \<Longrightarrow>
   (\<forall>token \<in> set tokens. \<forall>(d, f) \<in> set (postings (inverted_index self) token).
       \<exists>v. bm25 self d token f = Inr v)
   \<and> scores' = fold (\<lambda>(d, v) s. AList.update d (score_of s d + v) s)
                  (concat (map (\<lambda>token. map (\<lambda>(d, f). (d, projr (bm25 self d token f)))
                                           (postings (inverted_index self) token)) tokens))
                  scores"
proof (induction tokens arbitrary: scores)
  case Nil
  then show ?case by simp
next
  case (Cons token tokens)
  from Cons.prems obtain s1
    where s1: "score_postings self token scores (postings (inverted_index self) token) = Inr s1"
    by (cases "score_postings self token scores (postings (inverted_index self) token)") simp_all
  from Cons.prems have rest: "score_tokens self s1 tokens = Inr scores'"
    by (simp add: s1)
  from score_postings_Inr [OF s1] Cons.IH [OF rest] show ?case
    by simp
qed

lemma keys_accumulate:
  "fst ` set (fold (\<lambda>(d, v) s. AList.update d (score_of s d + v) s) ev scores)
     = fst ` set scores \<union> fst ` set ev"
  by (induction ev arbitrary: scores) (auto simp: dom_update split: prod.splits)

lemma distinct_accumulate:
  "distinct (map fst scores) \<Longrightarrow>
   distinct (map fst (fold (\<lambda>(d, v) s. AList.update d (score_of s d + v) s) ev scores))"
  by (induction ev arbitrary: scores) (auto simp: distinct_update split: prod.splits)

lemma score_of_update:
  "score_of (AList.update k v scores) d = (if d = k then v else score_of scores d)"
  by (simp add: score_of_def update_conv')

lemma score_of_accumulate:
  "score_of (fold (\<lambda>(d, v) s. AList.update d (score_of s d + v) s) ev scores) d
     = score_of scores d + sum_list (map snd (filter (\<lambda>(d', v). d' = d) ev))"
  by (induction ev arbitrary: scores) (auto simp: score_of_update split: prod.splits)

lemma matches_of_events:
  "map snd (filter (\<lambda>(d', v). d' = d)
      (concat (map (\<lambda>token. map (\<lambda>(d, f). (d, projr (bm25 self d token f)))
                               (postings (inverted_index self) token)) tokens)))
   = map (\<lambda>(token, f). projr (bm25 self d token f))
       (concat (map (\<lambda>token. map (\<lambda>(d, term_freq). (token, term_freq))
                              (filter (\<lambda>(d', term_freq). d' = d)
                                 (postings (inverted_index self) token))) tokens))"
proof (induction tokens)
  case Nil
  show ?case by simp
next
  case (Cons token tokens)
  have "map snd (filter (\<lambda>(d', v). d' = d)
            (map (\<lambda>(d, f). (d, projr (bm25 self d token f))) ps))
        = map (\<lambda>(token, f). projr (bm25 self d token f))
            (map (\<lambda>(d, term_freq). (token, term_freq)) (filter (\<lambda>(d', term_freq). d' = d) ps))"
    for ps
    by (induction ps) auto
  with Cons.IH show ?case by simp
qed


lemma sorted_by_score_desc_sorted:
  "sorted_wrt (\<lambda>x y. snd y \<le> snd x) (sorted_by_score_desc items)"
proof -
  have "sorted (map (\<lambda>x. - snd x) (sort_key (\<lambda>x. - snd x) items))"
    by (rule sorted_sort_key)
  then show ?thesis
    by (simp add: sorted_by_score_desc_def sorted_map)
qed

lemma sorted_by_score_desc_set:
  "set (sorted_by_score_desc items) = set items"
  by (simp add: sorted_by_score_desc_def)

lemma distinct_fst_insort_key:
  "distinct (map fst (insort_key f x xs)) \<longleftrightarrow> fst x \<notin> fst ` set xs \<and> distinct (map fst xs)"
  by (induction xs) (auto simp: set_insort_key)

lemma distinct_fst_sort_key:
  "distinct (map fst (sort_key f xs)) \<longleftrightarrow> distinct (map fst xs)"
  by (induction xs) (simp_all add: distinct_fst_insort_key)

lemma sorted_by_score_desc_distinct:
  "distinct (map fst items) \<Longrightarrow> distinct (map fst (sorted_by_score_desc items))"
  by (simp add: sorted_by_score_desc_def distinct_fst_sort_key)

lemma search_scores:
  assumes "score_tokens self [] (query_tokens query) = Inr scores"
  shows "distinct (map fst scores)"
    and "fst ` set scores
           = {d. \<exists>token \<in> set (query_tokens query).
                   d \<in> fst ` set (postings (inverted_index self) token)}"
    and "(d, s) \<in> set scores \<Longrightarrow>
           list_all2 (\<lambda>(token, f) v. bm25 self d token f = Inr v) (query_matches self query d)
             (map (\<lambda>(token, f). projr (bm25 self d token f)) (query_matches self query d))
           \<and> s = sum_list (map (\<lambda>(token, f). projr (bm25 self d token f))
                            (query_matches self query d))"
proof -
  let ?ev = "concat (map (\<lambda>token. map (\<lambda>(d, f). (d, projr (bm25 self d token f)))
                                     (postings (inverted_index self) token))
                      (query_tokens query))"
  from score_tokens_Inr [OF assms]
  have ok: "\<forall>token \<in> set (query_tokens query).
              \<forall>(d, f) \<in> set (postings (inverted_index self) token).
                \<exists>v. bm25 self d token f = Inr v"
    and sc: "scores = fold (\<lambda>(d, v) s. AList.update d (score_of s d + v) s) ?ev []"
    by blast+
  show dist: "distinct (map fst scores)"
    unfolding sc by (rule distinct_accumulate) simp
  show "fst ` set scores
           = {d. \<exists>token \<in> set (query_tokens query).
                   d \<in> fst ` set (postings (inverted_index self) token)}"
    unfolding sc keys_accumulate by force
  show "list_all2 (\<lambda>(token, f) v. bm25 self d token f = Inr v) (query_matches self query d)
             (map (\<lambda>(token, f). projr (bm25 self d token f)) (query_matches self query d))
           \<and> s = sum_list (map (\<lambda>(token, f). projr (bm25 self d token f))
                            (query_matches self query d))"
    if mem: "(d, s) \<in> set scores"
  proof
    have "bm25 self d token f = Inr (projr (bm25 self d token f))"
      if "(token, f) \<in> set (query_matches self query d)" for token f
    proof -
      from that have "token \<in> set (query_tokens query)"
        and "(d, f) \<in> set (postings (inverted_index self) token)"
        by (auto simp: query_matches_def)
      with ok obtain v where "bm25 self d token f = Inr v"
        by blast
      then show ?thesis by simp
    qed
    then show "list_all2 (\<lambda>(token, f) v. bm25 self d token f = Inr v) (query_matches self query d)
             (map (\<lambda>(token, f). projr (bm25 self d token f)) (query_matches self query d))"
      by (auto simp: list_all2_map2 intro!: list_all2_same [THEN iffD2])
    from mem dist have "map_of scores d = Some s"
      by (simp add: map_of_is_SomeI)
    then have "s = score_of scores d"
      by (simp add: score_of_def)
    also have "\<dots> = sum_list (map snd (filter (\<lambda>(d', v). d' = d) ?ev))"
      unfolding sc score_of_accumulate by (simp add: score_of_def)
    also have "\<dots> = sum_list (map (\<lambda>(token, f). projr (bm25 self d token f))
                            (query_matches self query d))"
      unfolding matches_of_events query_matches_def ..
    finally show "s = sum_list (map (\<lambda>(token, f). projr (bm25 self d token f))
                            (query_matches self query d))" .
  qed
qed


lemma metadata_add_document:
  "metadata (add_document self ttl tokens md) = AList.update ttl md (metadata self)"
  by (simp add: add_document_def index_document_def Let_def)

text \<open>
  C1 as stated fails when a posting list holds a document more than once, which happens when
  a title is added twice. Here \<^verbatim>\<open>A\<close> is added twice with the token \<^verbatim>\<open>xx\<close>. The query \<^verbatim>\<open>xx\<close> has
  one token, its posting list contains \<^verbatim>\<open>A\<close> (twice, each time with the term frequency 1), and
  \<^verbatim>\<open>bm25\<close> for \<^verbatim>\<open>A\<close>, \<^verbatim>\<open>xx\<close> and 1 is \<open>ln (4 / 5)\<close>: the sum over the occurrences of a query
  token whose posting list contains the document is \<open>ln (4 / 5)\<close>. The search adds a term for
  each posting and reports twice that.
\<close>

theorem search_with_repeated_posting:
  "CustomIndex_search_index
      (add_document (add_document CustomIndex_init ''A'' [''xx''] []) ''A'' [''xx''] []) ''xx''
     = Inr [(''A'', 2 * ln (4 / 5), [])]
   \<and> query_tokens ''xx'' = [''xx'']
   \<and> postings (inverted_index
        (add_document (add_document CustomIndex_init ''A'' [''xx''] []) ''A'' [''xx''] [])) ''xx''
     = [(''A'', 1), (''A'', 1)]
   \<and> bm25 (add_document (add_document CustomIndex_init ''A'' [''xx''] []) ''A'' [''xx''] [])
        ''A'' ''xx'' 1 = Inr (ln (4 / 5))
   \<and> 2 * ln (4 / 5) \<noteq> ln (4 / 5 :: real)"
proof -
  let ?I = "add_document (add_document CustomIndex_init ''A'' [''xx''] []) ''A'' [''xx''] []"
  define s :: real where "s = ln (4 / 5)"
  have q: "query_tokens ''xx'' = [''xx'']"
    by code_simp
  have p0: "postings (inverted_index CustomIndex_init) ''xx'' = []"
    by (simp add: CustomIndex_init_def postings_def)
  have p: "postings (inverted_index ?I) ''xx'' = [(''A'', Suc 0), (''A'', Suc 0)]"
    by (simp add: postings_add_document p0)
  have dl: "doc_lengths ?I = [(''A'', Suc 0)]"
    by (simp add: doc_lengths_add_document CustomIndex_init_def)
  have avg: "avg_doc_length ?I = 1"
    unfolding avg_doc_length_add_document dl by simp
  have k: "k1 ?I = 6 / 5" "b ?I = 3 / 4"
    by (simp_all add: k1_b_add_document CustomIndex_init_def)
  have md: "metadata ?I = [(''A'', [])]"
    by (simp add: metadata_add_document CustomIndex_init_def)
  have idf: "idf_arg ?I ''xx'' = 4 / 5"
    by (simp add: idf_arg_eq dl p)
  have den: "tf_denominator ?I (Suc 0) (Suc 0) = 11 / 5"
    by (simp add: tf_denominator_def k avg)
  have v: "bm25 ?I ''A'' ''xx'' (Suc 0) = Inr s"
    by (simp add: bm25_def idf dl avg den k s_def)
  have sc: "score_tokens ?I [] (query_tokens ''xx'') = Inr [(''A'', s + s)]"
    by (simp add: q p v score_of_def)
  have r: "CustomIndex_search_index ?I ''xx'' = Inr [(''A'', s + s, [])]"
    by (simp add: CustomIndex_search_index_def sc sorted_by_score_desc_def metadata_get_def md)
  have "s \<noteq> 0"
    unfolding s_def by simp
  then have ne: "2 * s \<noteq> s"
    by simp
  have two: "s + s = 2 * s"
    by simp
  have "CustomIndex_search_index ?I ''xx'' = Inr [(''A'', 2 * s, [])]
        \<and> query_tokens ''xx'' = [''xx'']
        \<and> postings (inverted_index ?I) ''xx'' = [(''A'', 1), (''A'', 1)]
        \<and> bm25 ?I ''A'' ''xx'' 1 = Inr s
        \<and> 2 * s \<noteq> s"
    using r q p v ne unfolding two by simp
  then show ?thesis
    unfolding s_def .
qed

text \<open>
  C1, with one term of the sum for every posting: the tokens of the query are those
  \<^verbatim>\<open>compute_document_tokens\<close> gives for the same text, the tokens of \<^verbatim>\<open>tokenize_call\<close>
  followed by the bigrams and the trigrams. When the search returns a list, every document
  occurs in it once; its documents are those of the posting lists of the tokens of the query;
  the scores do not increase along the list; every entry holds the stored metadata of its
  document (the empty dictionary when none is stored) and, as score, the sum of the values of
  \<^verbatim>\<open>bm25\<close> for the document, the token and the term frequency of the posting, over every
  occurrence of a token in the query and every posting of the document in the posting list
  of that token (\<open>query_matches\<close>). The search returns a list whenever \<^verbatim>\<open>bm25\<close> returns a
  value for every posting it visits.
\<close>

theorem search_index_sums_bm25:
  "query_tokens query = compute_document_tokens query
   \<and> query_tokens query
       = map tok_text (tokenize_call query @ construct_bigrams (tokenize_call query)
                         @ construct_trigrams (tokenize_call query))
   \<and> (CustomIndex_search_index self query = Inr res \<longrightarrow>
         distinct (map fst res)
       \<and> set (map fst res)
           = {d. \<exists>token \<in> set (query_tokens query).
                   d \<in> fst ` set (postings (inverted_index self) token)}
       \<and> sorted_wrt (\<lambda>x y. fst (snd y) \<le> fst (snd x)) res
       \<and> (\<forall>(d, s, m) \<in> set res.
             m = metadata_get self d
           \<and> (\<exists>vs. list_all2 (\<lambda>(token, f) v. bm25 self d token f = Inr v)
                      (query_matches self query d) vs
                  \<and> s = sum_list vs)))
   \<and> ((\<forall>token \<in> set (query_tokens query).
          \<forall>(d, f) \<in> set (postings (inverted_index self) token).
            \<exists>v. bm25 self d token f = Inr v)
       \<longrightarrow> (\<exists>res. CustomIndex_search_index self query = Inr res))"
proof (intro conjI impI)
  show "query_tokens query = compute_document_tokens query"
    by (simp add: query_tokens_def compute_document_tokens_def)
  show "query_tokens query
       = map tok_text (tokenize_call query @ construct_bigrams (tokenize_call query)
                         @ construct_trigrams (tokenize_call query))"
    by (simp add: query_tokens_def CodeTokenizer_def Let_def)
next
  assume "\<forall>token \<in> set (query_tokens query).
          \<forall>(d, f) \<in> set (postings (inverted_index self) token).
            \<exists>v. bm25 self d token f = Inr v"
  then show "\<exists>res. CustomIndex_search_index self query = Inr res"
    by (intro search_index_ok) blast
next
  assume r: "CustomIndex_search_index self query = Inr res"
  then obtain scores where sc: "score_tokens self [] (query_tokens query) = Inr scores"
    and res: "res = map (\<lambda>(doc_id, score). (doc_id, score, metadata_get self doc_id))
                      (sorted_by_score_desc scores)"
    by (auto simp: CustomIndex_search_index_def split: sum.splits)
  have fst_res: "map fst res = map fst (sorted_by_score_desc scores)"
    by (simp add: res comp_def case_prod_unfold)
  show "distinct (map fst res)"
    unfolding fst_res by (rule sorted_by_score_desc_distinct) (rule search_scores(1) [OF sc])
  show "set (map fst res)
           = {d. \<exists>token \<in> set (query_tokens query).
                   d \<in> fst ` set (postings (inverted_index self) token)}"
    unfolding fst_res using search_scores(2) [OF sc]
    by (simp add: sorted_by_score_desc_set)
  show "sorted_wrt (\<lambda>x y. fst (snd y) \<le> fst (snd x)) res"
    unfolding res using sorted_by_score_desc_sorted [of scores]
    by (simp add: sorted_wrt_map case_prod_unfold)
  show "\<forall>(d, s, m) \<in> set res.
             m = metadata_get self d
           \<and> (\<exists>vs. list_all2 (\<lambda>(token, f) v. bm25 self d token f = Inr v)
                      (query_matches self query d) vs
                  \<and> s = sum_list vs)"
  proof (clarify, intro conjI)
    fix d s m
    assume "(d, s, m) \<in> set res"
    then have m: "m = metadata_get self d" and mem: "(d, s) \<in> set scores"
      by (auto simp: res sorted_by_score_desc_set)
    show "m = metadata_get self d"
      by (rule m)
    from search_scores(3) [OF sc mem]
    show "\<exists>vs. list_all2 (\<lambda>(token, f) v. bm25 self d token f = Inr v)
                      (query_matches self query d) vs
                  \<and> s = sum_list vs"
      by blast
  qed
qed


text \<open>
  An index of two documents, \<^verbatim>\<open>b.py\<close> added before \<^verbatim>\<open>a.py\<close>, searched for \<^verbatim>\<open>xx\<close>: the
  document \<^verbatim>\<open>a.py\<close> holds the token twice and comes first in the result.
\<close>

lemma two_documents_search:
  "CustomIndex_search_index
      (add_document (add_document CustomIndex_init ''b.py'' [''xx'', ''yy''] [])
         ''a.py'' [''xx'', ''xx''] [(''k'', ''v'')]) ''xx''
     = Inr [(''a.py'', ln (6 / 5) * (11 / 8), [(''k'', ''v'')]), (''b.py'', ln (6 / 5), [])]
   \<and> query_matches
      (add_document (add_document CustomIndex_init ''b.py'' [''xx'', ''yy''] [])
         ''a.py'' [''xx'', ''xx''] [(''k'', ''v'')]) ''xx'' ''a.py'' = [(''xx'', 2)]
   \<and> bm25
      (add_document (add_document CustomIndex_init ''b.py'' [''xx'', ''yy''] [])
         ''a.py'' [''xx'', ''xx''] [(''k'', ''v'')]) ''a.py'' ''xx'' 2 = Inr (ln (6 / 5) * (11 / 8))
   \<and> ln (6 / 5) < ln (6 / 5) * (11 / 8 :: real)"
proof -
  let ?I = "add_document (add_document CustomIndex_init ''b.py'' [''xx'', ''yy''] [])
              ''a.py'' [''xx'', ''xx''] [(''k'', ''v'')]"
  define sb :: real where "sb = ln (6 / 5)"
  define sa :: real where "sa = ln (6 / 5) * (11 / 8)"
  have q: "query_tokens ''xx'' = [''xx'']"
    by code_simp
  have p0: "postings (inverted_index CustomIndex_init) ''xx'' = []"
    by (simp add: CustomIndex_init_def postings_def)
  have p: "postings (inverted_index ?I) ''xx'' = [(''b.py'', Suc 0), (''a.py'', 2)]"
    by (simp add: postings_add_document p0)
  have dl: "doc_lengths ?I = [(''b.py'', 2), (''a.py'', 2)]"
    by (simp add: doc_lengths_add_document CustomIndex_init_def)
  have avg: "avg_doc_length ?I = 2"
    unfolding avg_doc_length_add_document dl by simp
  have k: "k1 ?I = 6 / 5" "b ?I = 3 / 4"
    by (simp_all add: k1_b_add_document CustomIndex_init_def)
  have md: "metadata ?I = [(''b.py'', []), (''a.py'', [(''k'', ''v'')])]"
    by (simp add: metadata_add_document CustomIndex_init_def)
  have idf: "idf_arg ?I ''xx'' = 6 / 5"
    by (simp add: idf_arg_eq dl p)
  have den_b: "tf_denominator ?I 2 (Suc 0) = 11 / 5"
    by (simp add: tf_denominator_def k avg)
  have den_a: "tf_denominator ?I 2 2 = 16 / 5"
    by (simp add: tf_denominator_def k avg)
  have vb: "bm25 ?I ''b.py'' ''xx'' (Suc 0) = Inr sb"
    by (simp add: bm25_def idf dl avg den_b k sb_def)
  have va: "bm25 ?I ''a.py'' ''xx'' 2 = Inr sa"
    by (simp add: bm25_def idf dl avg den_a k sa_def)
  have sc: "score_tokens ?I [] (query_tokens ''xx'') = Inr [(''b.py'', sb), (''a.py'', sa)]"
    by (simp add: q p vb va score_of_def)
  have pos: "0 < ln (6 / 5 :: real)"
    by simp
  have lt: "sb < sa"
    unfolding sa_def sb_def using pos by (simp add: mult_less_cancel_left1)
  have srt: "sorted_by_score_desc [(''b.py'', sb), (''a.py'', sa)] = [(''a.py'', sa), (''b.py'', sb)]"
    using lt by (simp add: sorted_by_score_desc_def)
  have r: "CustomIndex_search_index ?I ''xx''
             = Inr [(''a.py'', sa, [(''k'', ''v'')]), (''b.py'', sb, [])]"
    by (simp add: CustomIndex_search_index_def sc srt metadata_get_def md)
  have qm: "query_matches ?I ''xx'' ''a.py'' = [(''xx'', 2)]"
    by (simp add: query_matches_def q p)
  have "CustomIndex_search_index ?I ''xx''
             = Inr [(''a.py'', sa, [(''k'', ''v'')]), (''b.py'', sb, [])]
        \<and> query_matches ?I ''xx'' ''a.py'' = [(''xx'', 2)]
        \<and> bm25 ?I ''a.py'' ''xx'' 2 = Inr sa
        \<and> sb < sa"
    using r qm va lt by (intro conjI)
  then show ?thesis
    unfolding sa_def sb_def .
qed

theorem search_index_sums_bm25_witness:
  "CustomIndex_search_index
      (add_document (add_document CustomIndex_init ''b.py'' [''xx'', ''yy''] [])
         ''a.py'' [''xx'', ''xx''] [(''k'', ''v'')]) ''xx''
     = Inr [(''a.py'', ln (6 / 5) * (11 / 8), [(''k'', ''v'')]), (''b.py'', ln (6 / 5), [])]
   \<and> (\<exists>vs. list_all2
              (\<lambda>(token, f) v.
                  bm25 (add_document (add_document CustomIndex_init ''b.py'' [''xx'', ''yy''] [])
                          ''a.py'' [''xx'', ''xx''] [(''k'', ''v'')]) ''a.py'' token f = Inr v)
              [(''xx'', 2)] vs
          \<and> ln (6 / 5) * (11 / 8) = sum_list vs)
   \<and> bm25
      (add_document (add_document CustomIndex_init ''b.py'' [''xx'', ''yy''] [])
         ''a.py'' [''xx'', ''xx''] [(''k'', ''v'')]) ''a.py'' ''xx'' 2 = Inr (ln (6 / 5) * (11 / 8))"
proof -
  let ?I = "add_document (add_document CustomIndex_init ''b.py'' [''xx'', ''yy''] [])
              ''a.py'' [''xx'', ''xx''] [(''k'', ''v'')]"
  define sb :: real where "sb = ln (6 / 5)"
  define sa :: real where "sa = ln (6 / 5) * (11 / 8)"
  from two_documents_search
  have r: "CustomIndex_search_index ?I ''xx''
             = Inr [(''a.py'', sa, [(''k'', ''v'')]), (''b.py'', sb, [])]"
    and qm: "query_matches ?I ''xx'' ''a.py'' = [(''xx'', 2)]"
    and va: "bm25 ?I ''a.py'' ''xx'' 2 = Inr sa"
    unfolding sa_def sb_def by blast+
  from search_index_sums_bm25
    [of "''xx''" ?I "[(''a.py'', sa, [(''k'', ''v'')]), (''b.py'', sb, [])]"] r
  have "\<forall>(d, s, m) \<in> set [(''a.py'', sa, [(''k'', ''v'')]), (''b.py'', sb, [])].
          m = metadata_get ?I d
          \<and> (\<exists>vs. list_all2 (\<lambda>(token, f) v. bm25 ?I d token f = Inr v)
                     (query_matches ?I ''xx'' d) vs
                 \<and> s = sum_list vs)"
    by blast
  then have ex: "\<exists>vs. list_all2 (\<lambda>(token, f) v. bm25 ?I ''a.py'' token f = Inr v)
                     [(''xx'', 2)] vs
                 \<and> sa = sum_list vs"
    unfolding qm [symmetric] by simp
  have "CustomIndex_search_index ?I ''xx''
             = Inr [(''a.py'', sa, [(''k'', ''v'')]), (''b.py'', sb, [])]
        \<and> (\<exists>vs. list_all2 (\<lambda>(token, f) v. bm25 ?I ''a.py'' token f = Inr v)
                     [(''xx'', 2)] vs
                 \<and> sa = sum_list vs)
        \<and> bm25 ?I ''a.py'' ''xx'' 2 = Inr sa"
    using r ex va by (intro conjI)
  then show ?thesis
    unfolding sa_def sb_def .
qed

section \<open>The normalised scores\<close>













end
